theory Spec2Isabelle
  imports
    Complex_Main
    "HOL-Library.AList"
    "HOL-Library.Multiset"
    "HOL-Library.Char_ord"
    "HOL-Library.List_Lexorder"
begin

section \<open>Cells, columns and frames\<close>

text \<open>
  The screener of \<^verbatim>\<open>app.py\<close> works on pandas frames as \<^verbatim>\<open>yf.download\<close> returns them.
  A cell is a float64; it is modelled as a real number, with \<open>None\<close> for NaN (rounding
  and infinities are left out). A column is the list of its cells in index order, and a
  frame is its number of rows (\<^verbatim>\<open>len(df)\<close>) with its columns by name, in column order.
  In a pandas frame every column is as long as the index: \<open>wf_frame\<close>.
\<close>

type_synonym val = "real option"

type_synonym series = "val list"

record frame =
  nrows :: nat
  cols :: "(string \<times> series) list"

text \<open>The exceptions of the model: a missing column, a position out of range, and
  whatever the market-data provider raises.\<close>

datatype error = KeyError | IndexError | ProviderError

definition ebind :: "error + 'a \<Rightarrow> ('a \<Rightarrow> error + 'b) \<Rightarrow> error + 'b" where
  "ebind m f = (case m of Inl e \<Rightarrow> Inl e | Inr x \<Rightarrow> f x)"

definition wf_frame :: "frame \<Rightarrow> bool" where
  "wf_frame df = list_all (\<lambda>kc. length (snd kc) = nrows df) (cols df)"

definition df_empty :: "frame \<Rightarrow> bool" where
  \<comment> \<open>\<^verbatim>\<open>df.empty\<close>: no rows or no columns\<close>
  "df_empty df = (nrows df = 0 \<or> cols df = [])"

definition getcol :: "frame \<Rightarrow> string \<Rightarrow> error + series" where
  \<comment> \<open>\<^verbatim>\<open>df[name]\<close>\<close>
  "getcol df name = (case map_of (cols df) name of None \<Rightarrow> Inl KeyError | Some c \<Rightarrow> Inr c)"

definition setcol :: "frame \<Rightarrow> string \<Rightarrow> series \<Rightarrow> frame" where
  \<comment> \<open>\<^verbatim>\<open>df[name] = c\<close>: replaces the column in place, or appends it\<close>
  "setcol df name c = df\<lparr>cols := AList.update name c (cols df)\<rparr>"

definition iloc :: "series \<Rightarrow> int \<Rightarrow> error + val" where
  \<comment> \<open>\<^verbatim>\<open>s.iloc[i]\<close>: a negative position counts from the end\<close>
  "iloc s i =
     (if 0 \<le> i \<and> i < int (length s) then Inr (s ! nat i)
      else if i < 0 \<and> - int (length s) \<le> i then Inr (s ! nat (int (length s) + i))
      else Inl IndexError)"

definition cell :: "frame \<Rightarrow> string \<Rightarrow> int \<Rightarrow> error + val" where
  \<comment> \<open>\<^verbatim>\<open>df[name].iloc[i]\<close>\<close>
  "cell df name i = ebind (getcol df name) (\<lambda>s. iloc s i)"

definition isna :: "val \<Rightarrow> bool" where
  "isna v = (v = None)"

definition f_le :: "val \<Rightarrow> val \<Rightarrow> bool" where
  \<comment> \<open>\<^verbatim>\<open>a <= b\<close> on floats: false when either side is NaN\<close>
  "f_le a b = (case a of None \<Rightarrow> False | Some x \<Rightarrow> (case b of None \<Rightarrow> False | Some y \<Rightarrow> x \<le> y))"

definition f_gt :: "val \<Rightarrow> val \<Rightarrow> bool" where
  \<comment> \<open>\<^verbatim>\<open>a > b\<close> on floats: false when either side is NaN\<close>
  "f_gt a b = (case a of None \<Rightarrow> False | Some x \<Rightarrow> (case b of None \<Rightarrow> False | Some y \<Rightarrow> y < x))"

definition py_max :: "val \<Rightarrow> val \<Rightarrow> val" where
  \<comment> \<open>the builtin \<^verbatim>\<open>max(a, b)\<close>: the first argument unless the second is greater\<close>
  "py_max a b = (if f_gt b a then b else a)"

section \<open>The pandas operations the indicators use\<close>

definition s_add :: "series \<Rightarrow> series \<Rightarrow> series" where
  "s_add xs ys = map2 (\<lambda>a b. case a of None \<Rightarrow> None
                               | Some x \<Rightarrow> (case b of None \<Rightarrow> None | Some y \<Rightarrow> Some (x + y))) xs ys"

definition s_sub :: "series \<Rightarrow> series \<Rightarrow> series" where
  "s_sub xs ys = map2 (\<lambda>a b. case a of None \<Rightarrow> None
                               | Some x \<Rightarrow> (case b of None \<Rightarrow> None | Some y \<Rightarrow> Some (x - y))) xs ys"

definition s_half :: "series \<Rightarrow> series" where
  "s_half xs = map (map_option (\<lambda>x. x / 2)) xs"

definition agg_window :: "(real \<Rightarrow> real \<Rightarrow> real) \<Rightarrow> series \<Rightarrow> val" where
  \<comment> \<open>the aggregate of one full window: NaN when a cell of the window is NaN\<close>
  "agg_window f ws =
     (case those ws of None \<Rightarrow> None | Some [] \<Rightarrow> None | Some (v # vs) \<Rightarrow> Some (fold f vs v))"

definition rolling :: "(real \<Rightarrow> real \<Rightarrow> real) \<Rightarrow> nat \<Rightarrow> series \<Rightarrow> series" where
  \<comment> \<open>\<^verbatim>\<open>s.rolling(w).max()\<close> and \<^verbatim>\<open>.min()\<close>: the trailing window of \<open>w\<close> cells ending at
      each row, NaN until the window is full (\<^verbatim>\<open>min_periods\<close> is the window)\<close>
  "rolling f w xs =
     map (\<lambda>i. if i + 1 < w then None else agg_window f (take w (drop (i + 1 - w) xs)))
       [0..<length xs]"

definition shift :: "nat \<Rightarrow> series \<Rightarrow> series" where
  \<comment> \<open>\<^verbatim>\<open>s.shift(k)\<close>: row \<open>i\<close> gets the cell of row \<open>i - k\<close>; the first \<open>k\<close> rows are NaN
      and the last \<open>k\<close> cells fall off the index\<close>
  "shift k xs = take (length xs) (replicate k None @ xs)"

fun ewm_from :: "real \<Rightarrow> val \<Rightarrow> real \<Rightarrow> series \<Rightarrow> series" where
  "ewm_from \<alpha> weighted old_wt [] = []"
| "ewm_from \<alpha> None old_wt (cur # rest) = cur # ewm_from \<alpha> cur old_wt rest"
| "ewm_from \<alpha> (Some w) old_wt (None # rest) =
     Some w # ewm_from \<alpha> (Some w) (old_wt * (1 - \<alpha>)) rest"
| "ewm_from \<alpha> (Some w) old_wt (Some c # rest) =
     (let ow = old_wt * (1 - \<alpha>);
          w' = (if w \<noteq> c then (ow * w + \<alpha> * c) / (ow + \<alpha>) else w)
      in Some w' # ewm_from \<alpha> (Some w') 1 rest)"

definition ewm_mean :: "nat \<Rightarrow> series \<Rightarrow> series" where
  \<comment> \<open>\<^verbatim>\<open>s.ewm(span=n, adjust=False).mean()\<close>: seeded by the first cell, then
      \<open>y\<^sub>t = (1 - \<alpha>) y\<^sub>t\<^sub>-\<^sub>1 + \<alpha> x\<^sub>t\<close> with \<open>\<alpha> = 2 / (n + 1)\<close>; a NaN cell repeats the
      last mean and ages its weight\<close>
  "ewm_mean n xs =
     (case xs of [] \<Rightarrow> [] | x # rest \<Rightarrow> x # ewm_from (2 / (real n + 1)) x 1 rest)"

section \<open>The indicators\<close>

definition midline :: "nat \<Rightarrow> series \<Rightarrow> series \<Rightarrow> series" where
  \<comment> \<open>\<^verbatim>\<open>(df['High'].rolling(w).max() + df['Low'].rolling(w).min()) / 2\<close>\<close>
  "midline w high low = s_half (s_add (rolling max w high) (rolling min w low))"

definition add_ichimoku :: "frame \<Rightarrow> error + frame" where
  "add_ichimoku df =
     ebind (getcol df ''High'') (\<lambda>high.
     ebind (getcol df ''Low'') (\<lambda>low.
       let df1 = setcol df ''Tenkan'' (midline 9 high low) in
     ebind (getcol df1 ''High'') (\<lambda>high1.
     ebind (getcol df1 ''Low'') (\<lambda>low1.
       let df2 = setcol df1 ''Kijun'' (midline 26 high1 low1) in
     ebind (getcol df2 ''Tenkan'') (\<lambda>tenkan.
     ebind (getcol df2 ''Kijun'') (\<lambda>kijun.
       let df3 = setcol df2 ''Senkou_A'' (shift 26 (s_half (s_add tenkan kijun))) in
     ebind (getcol df3 ''High'') (\<lambda>high3.
     ebind (getcol df3 ''Low'') (\<lambda>low3.
       Inr (setcol df3 ''Senkou_B'' (shift 26 (midline 52 high3 low3)))))))))))"

definition add_macd :: "frame \<Rightarrow> error + frame" where
  \<comment> \<open>with the defaults \<^verbatim>\<open>fast=12, slow=26, signal=9\<close>, as every call has them\<close>
  "add_macd df =
     ebind (getcol df ''Close'') (\<lambda>close.
       let ema_fast = ewm_mean 12 close in
     ebind (getcol df ''Close'') (\<lambda>close1.
       let ema_slow = ewm_mean 26 close1;
           df1 = setcol df ''MACD'' (s_sub ema_fast ema_slow) in
     ebind (getcol df1 ''MACD'') (\<lambda>macd.
       Inr (setcol df1 ''MACD_Signal'' (ewm_mean 9 macd)))))"

definition is_above_cloud :: "frame \<Rightarrow> error + bool" where
  "is_above_cloud df0 =
     (if nrows df0 < 100 then Inr False
      else
        ebind (add_ichimoku df0) (\<lambda>df.
        ebind (cell df ''Senkou_A'' (- 1)) (\<lambda>a.
          if isna a then Inr False
          else
        ebind (cell df ''Senkou_B'' (- 1)) (\<lambda>b.
          if isna b then Inr False
          else
            let cloud_top = py_max a b in
        ebind (cell df ''Close'' (- 1)) (\<lambda>c.
          Inr (f_gt c cloud_top))))))"

definition macd_cross :: "frame \<Rightarrow> error + bool" where
  \<comment> \<open>lines 64-65, on the frame \<^verbatim>\<open>add_macd\<close> returned; \<^verbatim>\<open>and\<close> does not evaluate its
      right side when the left one is false\<close>
  "macd_cross daily_data =
     ebind (cell daily_data ''MACD'' (- 2)) (\<lambda>m2.
     ebind (cell daily_data ''MACD_Signal'' (- 2)) (\<lambda>s2.
       if \<not> f_le m2 s2 then Inr False
       else
     ebind (cell daily_data ''MACD'' (- 1)) (\<lambda>m1.
     ebind (cell daily_data ''MACD_Signal'' (- 1)) (\<lambda>s1.
       Inr (f_gt m1 s1)))))"

section \<open>The decision pipeline\<close>

text \<open>
  \<^verbatim>\<open>yf.download(ticker, period=.., interval=..)\<close> is the injected market-data provider:
  a function of the request that returns a frame or raises. The pipeline threads the
  list of the requests it has issued, oldest first, so that what it fetches can be
  counted.
\<close>

type_synonym request = "string \<times> string \<times> string"

type_synonym provider = "request \<Rightarrow> error + frame"

definition download :: "provider \<Rightarrow> request \<Rightarrow> request list \<Rightarrow> (error + frame) \<times> request list" where
  "download yf rq issued = (yf rq, issued @ [rq])"

datatype gate = Undefined_MACD | No_Signal | Passed

definition daily_gate :: "frame \<Rightarrow> error + gate" where
  \<comment> \<open>lines 59-68 on a daily frame that passed line 56: \<open>Undefined_MACD\<close> is the
      \<^verbatim>\<open>return False\<close> of line 62, \<open>No_Signal\<close> the one of line 68, and \<open>Passed\<close> goes on
      to the lower timeframes\<close>
  "daily_gate daily_data =
     ebind (is_above_cloud daily_data) (\<lambda>above_daily.
     ebind (add_macd daily_data) (\<lambda>daily_data1.
     ebind (cell daily_data1 ''MACD'' (- 1)) (\<lambda>m1.
       if isna m1 then Inr Undefined_MACD
       else
     ebind (macd_cross daily_data1) (\<lambda>cross.
       if \<not> (above_daily \<and> cross) then Inr No_Signal else Inr Passed))))"

definition lower_gate :: "frame \<Rightarrow> frame \<Rightarrow> error + bool" where
  \<comment> \<open>lines 74-80\<close>
  "lower_gate hourly_data min_data =
     (if df_empty hourly_data \<or> df_empty min_data then Inr False
      else
        ebind (is_above_cloud hourly_data) (\<lambda>above_hourly.
        ebind (is_above_cloud min_data) (\<lambda>above_min.
          Inr (above_hourly \<and> above_min))))"

definition is_bullish_try :: "provider \<Rightarrow> string \<Rightarrow> request list \<Rightarrow> (error + bool) \<times> request list" where
  \<comment> \<open>the body of the \<^verbatim>\<open>try\<close>\<close>
  "is_bullish_try yf ticker issued0 =
     (case download yf (ticker, ''3y'', ''1d'') issued0 of
        (Inl e, issued1) \<Rightarrow> (Inl e, issued1)
      | (Inr daily_data, issued1) \<Rightarrow>
          if df_empty daily_data \<or> nrows daily_data < 100 then (Inr False, issued1)
          else
            (case daily_gate daily_data of
               Inl e \<Rightarrow> (Inl e, issued1)
             | Inr Undefined_MACD \<Rightarrow> (Inr False, issued1)
             | Inr No_Signal \<Rightarrow> (Inr False, issued1)
             | Inr Passed \<Rightarrow>
                 (case download yf (ticker, ''730d'', ''60m'') issued1 of
                    (Inl e, issued2) \<Rightarrow> (Inl e, issued2)
                  | (Inr hourly_data, issued2) \<Rightarrow>
                      (case download yf (ticker, ''7d'', ''1m'') issued2 of
                         (Inl e, issued3) \<Rightarrow> (Inl e, issued3)
                       | (Inr min_data, issued3) \<Rightarrow>
                           (lower_gate hourly_data min_data, issued3)))))"

definition is_bullish_run :: "provider \<Rightarrow> string \<Rightarrow> request list \<Rightarrow> bool \<times> request list" where
  \<comment> \<open>\<^verbatim>\<open>except Exception: return False\<close>\<close>
  "is_bullish_run yf ticker issued0 =
     (case is_bullish_try yf ticker issued0 of
        (Inl e, issued) \<Rightarrow> (False, issued)
      | (Inr b, issued) \<Rightarrow> (b, issued))"

definition is_bullish :: "provider \<Rightarrow> string \<Rightarrow> bool" where
  \<comment> \<open>the verdict\<close>
  "is_bullish yf ticker = fst (is_bullish_run yf ticker [])"

definition fetches :: "provider \<Rightarrow> string \<Rightarrow> request list" where
  \<comment> \<open>the requests one evaluation of the pipeline issues\<close>
  "fetches yf ticker = snd (is_bullish_run yf ticker [])"

section \<open>The ticker universe and the scan\<close>

function py_replace :: "string \<Rightarrow> string \<Rightarrow> string \<Rightarrow> string" where
  "py_replace old new s =
     (if old = [] then new @ concat (map (\<lambda>c. c # new) s)
      else if s = [] then []
      else if take (length old) s = old then new @ py_replace old new (drop (length old) s)
      else hd s # py_replace old new (tl s))"
  by pat_completeness auto
termination
  by (relation "measure (\<lambda>(old, new, s). length s)") auto

declare py_replace.simps [simp del]

definition get_sp500_tickers :: "string list \<Rightarrow> string list" where
  \<comment> \<open>the argument is the \<^verbatim>\<open>Symbol\<close> column of the table read from the web (lines 12-15)\<close>
  "get_sp500_tickers symbols = map (\<lambda>ticker. py_replace ''.'' ''-'' ticker) symbols"

fun join :: "string \<Rightarrow> string list \<Rightarrow> string" where
  "join sep [] = []"
| "join sep [x] = x"
| "join sep (x # y # ys) = x @ sep @ join sep (y # ys)"

record scan_result =
  bullish_stocks :: "string list"
  bullish_stocks_str :: string
  found :: nat
  total_scanned :: nat

definition screen :: "provider \<Rightarrow> string list \<Rightarrow> nat list \<Rightarrow> scan_result" where
  \<comment> \<open>\<open>tickers\<close> is what \<^verbatim>\<open>get_sp500_tickers()\<close> returned. Future \<open>i\<close> evaluates ticker
      \<open>i\<close>; \<open>completed\<close> is the order in which \<^verbatim>\<open>as_completed\<close> yields the futures, a
      permutation of their positions. \<open>found\<close> is the \<^verbatim>\<open>count\<close> of the response; its
      timestamp and report texts are left out.\<close>
  "screen yf tickers completed =
     (let futures = map (\<lambda>ticker. (is_bullish yf ticker, ticker)) tickers;
          appended = map snd (filter fst (map (\<lambda>i. futures ! i) completed));
          sorted_stocks = sort appended
      in \<lparr> bullish_stocks = sorted_stocks,
           bullish_stocks_str = join '', '' sorted_stocks,
           found = length sorted_stocks,
           total_scanned = length tickers \<rparr>)"

section \<open>Observations and example inputs used in the statements\<close>

definition above :: "val \<Rightarrow> val \<Rightarrow> val \<Rightarrow> bool" where
  \<comment> \<open>the latest close is a number above both leading spans, themselves numbers\<close>
  "above a b x =
     (case a of None \<Rightarrow> False
      | Some ra \<Rightarrow> (case b of None \<Rightarrow> False
          | Some rb \<Rightarrow> (case x of None \<Rightarrow> False | Some rx \<Rightarrow> max ra rb < rx)))"

definition flat_frame :: "series \<Rightarrow> frame" where
  \<comment> \<open>a frame of bars whose high, low and close are one and the same column\<close>
  "flat_frame xs = \<lparr> nrows = length xs, cols = [(''High'', xs), (''Low'', xs), (''Close'', xs)] \<rparr>"

definition rising :: series where
  \<comment> \<open>a hundred bars: 99 at price 1, then one at price 2\<close>
  "rising = replicate 99 (Some 1) @ [Some 2]"

definition leading_spans :: "frame \<Rightarrow> error + series \<times> series" where
  \<comment> \<open>the columns \<^verbatim>\<open>Senkou_A\<close> and \<^verbatim>\<open>Senkou_B\<close> of the frame \<^verbatim>\<open>add_ichimoku\<close> returns\<close>
  "leading_spans df0 =
     ebind (add_ichimoku df0) (\<lambda>df.
     ebind (getcol df ''Senkou_A'') (\<lambda>sa.
     ebind (getcol df ''Senkou_B'') (\<lambda>sb. Inr (sa, sb))))"

definition cross_at_bar :: "series \<Rightarrow> nat \<Rightarrow> error + bool" where
  \<comment> \<open>lines 60 and 64-65 on a daily frame that holds the first \<open>k\<close> closes of \<open>c\<close>: the
      cross signal as it stands when bar \<open>k - 1\<close> is the latest one\<close>
  "cross_at_bar c k = ebind (add_macd \<lparr>nrows = k, cols = [(''Close'', take k c)]\<rparr>) macd_cross"

definition two_day_rise :: series where
  \<comment> \<open>a hundred closes: 98 at price 1, then 2, then 3\<close>
  "two_day_rise = replicate 98 (Some 1) @ [Some 2, Some 3]"

definition close_only :: frame where
  \<comment> \<open>a hundred rows that hold closing prices only\<close>
  "close_only = \<lparr> nrows = 100, cols = [(''Close'', replicate 100 (Some 1))] \<rparr>"

definition spans_only :: frame where
  \<comment> \<open>a hundred rows of NaN highs and lows, and no closing prices\<close>
  "spans_only = \<lparr> nrows = 100, cols = [(''High'', replicate 100 None), (''Low'', replicate 100 None)] \<rparr>"

definition only_aaa :: provider where
  \<comment> \<open>a provider that has the rising series for ticker AAA and nothing for any other\<close>
  "only_aaa rq = (if fst rq = ''AAA'' then Inr (flat_frame rising) else Inr (flat_frame []))"

section \<open>Frames and columns: basic facts\<close>

lemma ebind_Inr [simp]: "ebind (Inr x) f = f x"
  by (simp add: ebind_def)

lemma ebind_Inl [simp]: "ebind (Inl e) f = Inl e"
  by (simp add: ebind_def)

lemma getcol_setcol [simp]:
  "getcol (setcol df k c) k' = (if k' = k then Inr c else getcol df k')"
  by (simp add: getcol_def setcol_def update_conv')

lemma nrows_setcol [simp]: "nrows (setcol df k c) = nrows df"
  by (simp add: setcol_def)

lemma getcol_length: "wf_frame df \<Longrightarrow> getcol df k = Inr c \<Longrightarrow> length c = nrows df"
  by (auto simp: wf_frame_def getcol_def list_all_iff split: option.splits dest!: map_of_SomeD)

lemma iloc_last: "s \<noteq> [] \<Longrightarrow> iloc s (- 1) = Inr (last s)"
  by (cases s rule: rev_cases) (auto simp: iloc_def nth_append)

lemma iloc_prev: "2 \<le> length s \<Longrightarrow> iloc s (- 2) = Inr (s ! (length s - 2))"
  by (auto simp: iloc_def nat_diff_distrib' intro!: arg_cong[where f="nth s"])

lemma length_s_add [simp]: "length (s_add xs ys) = min (length xs) (length ys)"
  by (simp add: s_add_def)

lemma length_s_sub [simp]: "length (s_sub xs ys) = min (length xs) (length ys)"
  by (simp add: s_sub_def)

lemma length_s_half [simp]: "length (s_half xs) = length xs"
  by (simp add: s_half_def)

lemma length_rolling [simp]: "length (rolling f w xs) = length xs"
  by (simp add: rolling_def)

lemma length_shift [simp]: "length (shift k xs) = length xs"
  by (simp add: shift_def)

lemma length_midline [simp]: "length (midline w h l) = min (length h) (length l)"
  by (simp add: midline_def)

lemma length_ewm_from [simp]: "length (ewm_from a w ow xs) = length xs"
  by (induction a w ow xs rule: ewm_from.induct) (simp_all add: Let_def)

lemma length_ewm_mean [simp]: "length (ewm_mean n xs) = length xs"
  by (simp add: ewm_mean_def split: list.splits)

lemma shift_nth: "i < length xs \<Longrightarrow> shift k xs ! i = (if i < k then None else xs ! (i - k))"
  by (simp add: shift_def nth_append)

lemma add_ichimoku_cols:
  assumes "getcol df ''High'' = Inr h" "getcol df ''Low'' = Inr l"
  shows "\<exists>df'. add_ichimoku df = Inr df' \<and> nrows df' = nrows df
           \<and> getcol df' ''Senkou_A'' = Inr (shift 26 (s_half (s_add (midline 9 h l) (midline 26 h l))))
           \<and> getcol df' ''Senkou_B'' = Inr (shift 26 (midline 52 h l))
           \<and> getcol df' ''Close'' = getcol df ''Close''"
  using assms by (simp add: add_ichimoku_def Let_def)

lemma getcol_raises: "getcol df k = Inl e \<Longrightarrow> e = KeyError"
  by (simp add: getcol_def split: option.splits)

lemma add_ichimoku_raises:
  "add_ichimoku df = Inl e \<longleftrightarrow>
     e = KeyError \<and> (getcol df ''High'' = Inl KeyError \<or> getcol df ''Low'' = Inl KeyError)"
proof (cases "getcol df ''High''")
  case (Inl a)
  then show ?thesis
    using getcol_raises [OF Inl] by (auto simp: add_ichimoku_def)
next
  case high: (Inr h)
  show ?thesis
  proof (cases "getcol df ''Low''")
    case (Inl a)
    then show ?thesis
      using getcol_raises [OF Inl] high by (auto simp: add_ichimoku_def)
  next
    case (Inr l)
    then show ?thesis
      using high by (simp add: add_ichimoku_def Let_def)
  qed
qed

section \<open>The cloud-position evaluator\<close>

lemma cell_last:
  "getcol df k = Inr s \<Longrightarrow> s \<noteq> [] \<Longrightarrow> cell df k (- 1) = Inr (last s)"
  by (simp add: cell_def iloc_last)

lemma last_shift:
  "k < length xs \<Longrightarrow> last (shift k xs) = xs ! (length xs - 1 - k)"
proof -
  assume k: "k < length xs"
  then have "shift k xs \<noteq> []"
    by (metis length_shift less_nat_zero_code list.size(3))
  then have "last (shift k xs) = shift k xs ! (length xs - 1)"
    by (simp add: last_conv_nth)
  also have "\<dots> = xs ! (length xs - 1 - k)"
    using k by (auto simp: shift_nth)
  finally show ?thesis .
qed

lemma f_gt_py_max:
  "f_gt x (py_max (Some ra) (Some rb)) = above (Some ra) (Some rb) x"
  by (auto simp: f_gt_def py_max_def above_def split: option.splits)

lemma is_above_cloud_short: "nrows df < 100 \<Longrightarrow> is_above_cloud df = Inr False"
  by (simp add: is_above_cloud_def)

lemma is_above_cloud_long:
  assumes n: "100 \<le> nrows df" and wf: "wf_frame df"
    and h: "getcol df ''High'' = Inr h" and l: "getcol df ''Low'' = Inr l"
    and c: "getcol df ''Close'' = Inr c"
  defines "a \<equiv> s_half (s_add (midline 9 h l) (midline 26 h l)) ! (nrows df - 27)"
    and "b \<equiv> midline 52 h l ! (nrows df - 27)"
  shows "\<exists>df'. add_ichimoku df = Inr df'
           \<and> cell df' ''Senkou_A'' (- 1) = Inr a
           \<and> cell df' ''Senkou_B'' (- 1) = Inr b
           \<and> cell df' ''Close'' (- 1) = Inr (last c)
           \<and> is_above_cloud df = Inr (above a b (last c))"
proof -
  have lens: "length h = nrows df" "length l = nrows df" "length c = nrows df"
    using wf h l c by (simp_all add: getcol_length)
  obtain df' where df': "add_ichimoku df = Inr df'"
    and sa: "getcol df' ''Senkou_A'' = Inr (shift 26 (s_half (s_add (midline 9 h l) (midline 26 h l))))"
    and sb: "getcol df' ''Senkou_B'' = Inr (shift 26 (midline 52 h l))"
    and cl: "getcol df' ''Close'' = Inr c"
    using add_ichimoku_cols [OF h l] c by auto
  have ca: "cell df' ''Senkou_A'' (- 1) = Inr a"
    using n lens by (subst cell_last [OF sa]) (auto simp: last_shift a_def simp flip: length_0_conv)
  have cb: "cell df' ''Senkou_B'' (- 1) = Inr b"
    using n lens by (subst cell_last [OF sb]) (auto simp: last_shift b_def simp flip: length_0_conv)
  have cc: "cell df' ''Close'' (- 1) = Inr (last c)"
    using n lens by (subst cell_last [OF cl]) auto
  have "is_above_cloud df = Inr (above a b (last c))"
    using n by (cases a; cases b)
      (simp_all add: is_above_cloud_def df' ca cb cc isna_def f_gt_py_max, simp_all add: above_def)
  then show ?thesis
    using df' ca cb cc by simp
qed

lemma above_iff:
  "above a b x \<longleftrightarrow> (\<exists>ra rb rx. a = Some ra \<and> b = Some rb \<and> x = Some rx \<and> max ra rb < rx)"
  by (auto simp: above_def split: option.splits)

lemma flat_frame_simps [simp]:
  "nrows (flat_frame xs) = length xs"
  "wf_frame (flat_frame xs)"
  "getcol (flat_frame xs) ''High'' = Inr xs"
  "getcol (flat_frame xs) ''Low'' = Inr xs"
  "getcol (flat_frame xs) ''Close'' = Inr xs"
  "df_empty (flat_frame xs) \<longleftrightarrow> xs = []"
  by (simp_all add: flat_frame_def wf_frame_def getcol_def df_empty_def)

lemma rising_cloud:
  "length rising = 100"
  "s_half (s_add (midline 9 rising rising) (midline 26 rising rising)) ! 73 = Some 1"
  "midline 52 rising rising ! 73 = Some 1"
  "last rising = Some 2"
  by code_simp+

text \<open>
  C2. A frame of fewer than 100 rows is never above the cloud, whatever it holds. On a
  frame of at least 100 rows with its High, Low and Close columns, the latest leading
  spans A and B are the midpoints computed 26 rows before the latest row, and the
  evaluator returns true exactly when both are numbers and the latest close is a number
  strictly greater than the larger of the two; so it returns false when either span is
  NaN.
\<close>

theorem is_above_cloud_contract:
  "(nrows df < 100 \<longrightarrow> is_above_cloud df = Inr False) \<and>
   (100 \<le> nrows df \<and> wf_frame df \<and> getcol df ''High'' = Inr h \<and> getcol df ''Low'' = Inr l
      \<and> getcol df ''Close'' = Inr c \<longrightarrow>
    (\<exists>df' a b.
       add_ichimoku df = Inr df' \<and>
       cell df' ''Senkou_A'' (- 1) = Inr a \<and>
       cell df' ''Senkou_B'' (- 1) = Inr b \<and>
       cell df' ''Close'' (- 1) = Inr (last c) \<and>
       a = s_half (s_add (midline 9 h l) (midline 26 h l)) ! (nrows df - 27) \<and>
       b = midline 52 h l ! (nrows df - 27) \<and>
       ((a = None \<or> b = None) \<longrightarrow> is_above_cloud df = Inr False) \<and>
       is_above_cloud df =
         Inr (\<exists>ra rb rx. a = Some ra \<and> b = Some rb \<and> last c = Some rx \<and> max ra rb < rx)))"
proof (intro conjI impI)
  assume "nrows df < 100"
  then show "is_above_cloud df = Inr False"
    by (rule is_above_cloud_short)
next
  assume "100 \<le> nrows df \<and> wf_frame df \<and> getcol df ''High'' = Inr h
    \<and> getcol df ''Low'' = Inr l \<and> getcol df ''Close'' = Inr c"
  then obtain df' where
    "add_ichimoku df = Inr df'"
    "cell df' ''Senkou_A'' (- 1) = Inr (s_half (s_add (midline 9 h l) (midline 26 h l)) ! (nrows df - 27))"
    "cell df' ''Senkou_B'' (- 1) = Inr (midline 52 h l ! (nrows df - 27))"
    "cell df' ''Close'' (- 1) = Inr (last c)"
    "is_above_cloud df = Inr (above (s_half (s_add (midline 9 h l) (midline 26 h l)) ! (nrows df - 27))
       (midline 52 h l ! (nrows df - 27)) (last c))"
    using is_above_cloud_long [of df h l c] by blast
  then show "\<exists>df' a b.
       add_ichimoku df = Inr df' \<and>
       cell df' ''Senkou_A'' (- 1) = Inr a \<and>
       cell df' ''Senkou_B'' (- 1) = Inr b \<and>
       cell df' ''Close'' (- 1) = Inr (last c) \<and>
       a = s_half (s_add (midline 9 h l) (midline 26 h l)) ! (nrows df - 27) \<and>
       b = midline 52 h l ! (nrows df - 27) \<and>
       ((a = None \<or> b = None) \<longrightarrow> is_above_cloud df = Inr False) \<and>
       is_above_cloud df =
         Inr (\<exists>ra rb rx. a = Some ra \<and> b = Some rb \<and> last c = Some rx \<and> max ra rb < rx)"
    by (auto simp: above_iff)
qed

theorem is_above_cloud_contract_witness:
  "is_above_cloud (flat_frame []) = Inr False \<and> is_above_cloud (flat_frame rising) = Inr True"
proof
  show "is_above_cloud (flat_frame []) = Inr False"
    using is_above_cloud_contract [of "flat_frame []"] by simp
next
  have "100 \<le> nrows (flat_frame rising) \<and> wf_frame (flat_frame rising)
      \<and> getcol (flat_frame rising) ''High'' = Inr rising
      \<and> getcol (flat_frame rising) ''Low'' = Inr rising
      \<and> getcol (flat_frame rising) ''Close'' = Inr rising"
    by (simp add: rising_cloud)
  then show "is_above_cloud (flat_frame rising) = Inr True"
    using is_above_cloud_contract [of "flat_frame rising" rising rising rising]
    by (auto simp: rising_cloud)
qed

section \<open>Where the leading spans are defined\<close>

lemma those_eq_None: "those ws = None \<longleftrightarrow> None \<in> set ws"
  by (induction ws) (auto split: option.splits)

lemma those_eq_Nil: "those ws = Some [] \<longleftrightarrow> ws = []"
  by (cases ws) (auto split: option.splits)

lemma agg_window_undefined: "agg_window f ws = None \<longleftrightarrow> ws = [] \<or> None \<in> set ws"
proof (cases "those ws")
  case None
  then show ?thesis
    by (simp add: agg_window_def those_eq_None [symmetric])
next
  case (Some vs)
  then have "None \<notin> set ws"
    using those_eq_None [of ws] by simp
  moreover have "vs = [] \<longleftrightarrow> ws = []"
    using Some those_eq_Nil [of ws] by auto
  ultimately show ?thesis
    using Some by (cases vs) (simp_all add: agg_window_def)
qed

lemma rolling_nth:
  "i < length xs \<Longrightarrow>
   rolling f w xs ! i = (if i + 1 < w then None else agg_window f (take w (drop (i + 1 - w) xs)))"
  by (simp add: rolling_def)

lemma rolling_undefined:
  assumes "i < length xs" "None \<notin> set xs" "0 < w"
  shows "rolling f w xs ! i = None \<longleftrightarrow> i + 1 < w"
proof (cases "i + 1 < w")
  case True
  then show ?thesis
    using assms by (simp add: rolling_nth)
next
  case False
  have "None \<notin> set (take w (drop (i + 1 - w) xs))"
    using assms(2) by (meson in_set_dropD in_set_takeD)
  moreover have "take w (drop (i + 1 - w) xs) \<noteq> []"
    using assms False by simp
  ultimately have "agg_window f (take w (drop (i + 1 - w) xs)) \<noteq> None"
    unfolding agg_window_undefined by blast
  then show ?thesis
    using assms False by (simp add: rolling_nth)
qed

lemma s_add_undefined:
  "i < length xs \<Longrightarrow> i < length ys \<Longrightarrow>
   s_add xs ys ! i = None \<longleftrightarrow> xs ! i = None \<or> ys ! i = None"
  by (auto simp: s_add_def split: option.splits)

lemma s_half_undefined: "i < length xs \<Longrightarrow> s_half xs ! i = None \<longleftrightarrow> xs ! i = None"
  by (simp add: s_half_def)

lemma midline_undefined:
  assumes "i < length h" "length l = length h" "None \<notin> set h" "None \<notin> set l" "0 < w"
  shows "midline w h l ! i = None \<longleftrightarrow> i + 1 < w"
  using assms by (simp add: midline_def s_half_undefined s_add_undefined rolling_undefined)

lemma senkou_b_undefined:
  assumes "i < length h" "length l = length h" "None \<notin> set h" "None \<notin> set l"
  shows "shift 26 (midline 52 h l) ! i = None \<longleftrightarrow> i + 1 < 52 + 26"
proof (cases "i < 26")
  case True
  then show ?thesis
    using assms by (simp add: shift_nth)
next
  case False
  then have "midline 52 h l ! (i - 26) = None \<longleftrightarrow> i - 26 + 1 < 52"
    using assms by (intro midline_undefined) auto
  then show ?thesis
    using assms False by (simp add: shift_nth) linarith
qed

lemma senkou_a_undefined:
  assumes "i < length h" "length l = length h" "None \<notin> set h" "None \<notin> set l"
  shows "shift 26 (s_half (s_add (midline 9 h l) (midline 26 h l))) ! i = None
           \<longleftrightarrow> i + 1 < 26 + 26"
proof (cases "i < 26")
  case True
  then show ?thesis
    using assms by (simp add: shift_nth)
next
  case False
  then have "midline 9 h l ! (i - 26) = None \<longleftrightarrow> i - 26 + 1 < 9"
    and "midline 26 h l ! (i - 26) = None \<longleftrightarrow> i - 26 + 1 < 26"
    using assms midline_undefined [of "i - 26" h l 9] midline_undefined [of "i - 26" h l 26]
    by simp_all
  then show ?thesis
    using assms False by (simp add: shift_nth s_half_undefined s_add_undefined) linarith
qed

lemma leading_spans_cols:
  "getcol df ''High'' = Inr h \<Longrightarrow> getcol df ''Low'' = Inr l \<Longrightarrow>
   leading_spans df =
     Inr (shift 26 (s_half (s_add (midline 9 h l) (midline 26 h l))), shift 26 (midline 52 h l))"
  using add_ichimoku_cols [of df h l] by (auto simp: leading_spans_def)

section \<open>Leading spans on short series\<close>

text \<open>
  C7, as amended. \<^verbatim>\<open>shift(26)\<close> moves each midpoint 26 rows later and drops what would
  fall behind the last row, so the undefined leading-span cells are the first ones, not
  the most recent ones. On a frame whose highs and lows are all numbers, span A (base
  window 26) is undefined exactly at the rows \<open>i\<close> with \<open>i + 1 < 26 + 26\<close> and span B
  (window 52) exactly at the rows with \<open>i + 1 < 52 + 26\<close>; from row 26 on, each is the
  midpoint computed 26 rows earlier. On a series of exactly window + displacement rows
  the only defined cell is therefore the last one.
\<close>

theorem leading_spans_defined_from:
  assumes "wf_frame df" "getcol df ''High'' = Inr h" "getcol df ''Low'' = Inr l"
    and "None \<notin> set h" "None \<notin> set l"
  shows "\<exists>sa sb. leading_spans df = Inr (sa, sb) \<and> length sa = nrows df \<and> length sb = nrows df \<and>
           (\<forall>i<nrows df.
              (sa ! i = None \<longleftrightarrow> i + 1 < 26 + 26) \<and>
              (sb ! i = None \<longleftrightarrow> i + 1 < 52 + 26) \<and>
              (26 \<le> i \<longrightarrow>
                 sa ! i = s_half (s_add (midline 9 h l) (midline 26 h l)) ! (i - 26) \<and>
                 sb ! i = midline 52 h l ! (i - 26)))"
proof -
  have len: "length h = nrows df" "length l = nrows df"
    using assms by (simp_all add: getcol_length)
  let ?sa = "shift 26 (s_half (s_add (midline 9 h l) (midline 26 h l)))"
  let ?sb = "shift 26 (midline 52 h l)"
  have "leading_spans df = Inr (?sa, ?sb)"
    using assms by (simp add: leading_spans_cols)
  moreover have "length ?sa = nrows df" "length ?sb = nrows df"
    using len by simp_all
  moreover have "?sa ! i = None \<longleftrightarrow> i + 1 < 26 + 26" if "i < nrows df" for i
    using that len assms by (intro senkou_a_undefined) simp_all
  moreover have "?sb ! i = None \<longleftrightarrow> i + 1 < 52 + 26" if "i < nrows df" for i
    using that len assms by (intro senkou_b_undefined) simp_all
  moreover have "?sa ! i = s_half (s_add (midline 9 h l) (midline 26 h l)) ! (i - 26)"
    "?sb ! i = midline 52 h l ! (i - 26)" if "i < nrows df" "26 \<le> i" for i
    using that len by (simp_all add: shift_nth)
  ultimately show ?thesis
    by (intro exI [of _ ?sa] exI [of _ ?sb]) simp
qed

theorem leading_spans_defined_from_witness:
  "\<exists>sa sb. leading_spans (flat_frame (replicate 78 (Some 1))) = Inr (sa, sb)
     \<and> sa ! 50 = None \<and> sa ! 51 \<noteq> None \<and> sb ! 76 = None \<and> sb ! 77 \<noteq> None"
proof -
  let ?xs = "replicate 78 (Some 1) :: series"
  have "None \<notin> set ?xs"
    by simp
  then obtain sa sb where s: "leading_spans (flat_frame ?xs) = Inr (sa, sb)"
    and all: "\<forall>i<nrows (flat_frame ?xs).
              (sa ! i = None \<longleftrightarrow> i + 1 < 26 + 26) \<and> (sb ! i = None \<longleftrightarrow> i + 1 < 52 + 26) \<and>
              (26 \<le> i \<longrightarrow>
                 sa ! i = s_half (s_add (midline 9 ?xs ?xs) (midline 26 ?xs ?xs)) ! (i - 26) \<and>
                 sb ! i = midline 52 ?xs ?xs ! (i - 26))"
    using leading_spans_defined_from [of "flat_frame ?xs" ?xs ?xs] by auto
  have rows: "50 < nrows (flat_frame ?xs)" "51 < nrows (flat_frame ?xs)"
    "76 < nrows (flat_frame ?xs)" "77 < nrows (flat_frame ?xs)"
    by simp_all
  have "sa ! 50 = None \<longleftrightarrow> (50::nat) + 1 < 26 + 26"
    and "sa ! 51 = None \<longleftrightarrow> (51::nat) + 1 < 26 + 26"
    and "sb ! 76 = None \<longleftrightarrow> (76::nat) + 1 < 52 + 26"
    and "sb ! 77 = None \<longleftrightarrow> (77::nat) + 1 < 52 + 26"
    using all [rule_format, OF rows(1)] all [rule_format, OF rows(2)]
      all [rule_format, OF rows(3)] all [rule_format, OF rows(4)]
    by blast+
  then have "sa ! 50 = None" "sa ! 51 \<noteq> None" "sb ! 76 = None" "sb ! 77 \<noteq> None"
    by simp_all
  with s show ?thesis
    by blast
qed

lemma flat78_spans:
  "shift 26 (s_half (s_add (midline 9 (replicate 78 (Some 1)) (replicate 78 (Some 1)))
      (midline 26 (replicate 78 (Some 1)) (replicate 78 (Some 1)))))
     = replicate 51 None @ replicate 27 (Some 1)"
  "shift 26 (midline 52 (replicate 78 (Some 1)) (replicate 78 (Some 1)))
     = replicate 77 None @ [Some 1]"
  by code_simp+

theorem leading_spans_recent_counterexample:
  "leading_spans (flat_frame (replicate 78 (Some 1)))
     = Inr (replicate 51 None @ replicate 27 (Some 1), replicate 77 None @ [Some 1])"
  by (simp add: leading_spans_cols [of _ "replicate 78 (Some 1)" "replicate 78 (Some 1)"]
       flat78_spans)

section \<open>Exponential smoothing\<close>

lemma ewm_from_const:
  "ewm_from \<alpha> (Some c) ow (replicate n (Some c)) = replicate n (Some c)"
  by (induction n arbitrary: ow) (simp_all add: Let_def)

lemma ewm_mean_const: "ewm_mean k (replicate n (Some c)) = replicate n (Some c)"
  by (cases n) (simp_all add: ewm_mean_def ewm_from_const)

lemma s_sub_const:
  "s_sub (replicate n (Some c)) (replicate n (Some c)) = replicate n (Some 0)"
  by (simp add: s_sub_def zip_replicate)

lemma ewm_from_eq_Nil [simp]: "ewm_from \<alpha> w ow xs = [] \<longleftrightarrow> xs = []"
  by (metis length_0_conv length_ewm_from)

lemma ewm_mean_eq_Nil [simp]: "ewm_mean k xs = [] \<longleftrightarrow> xs = []"
  by (metis length_0_conv length_ewm_mean)

lemma ewm_from_Some_defined: "None \<notin> set (ewm_from \<alpha> (Some w) ow xs)"
proof (induction xs arbitrary: w ow)
  case Nil
  then show ?case by simp
next
  case (Cons x xs)
  then show ?case
    by (cases x) (simp_all add: Let_def)
qed

lemma ewm_from_None_last:
  "xs \<noteq> [] \<Longrightarrow> last (ewm_from \<alpha> None ow xs) = None \<longleftrightarrow> list_all isna xs"
proof (induction xs)
  case Nil
  then show ?case by simp
next
  case (Cons x xs)
  show ?case
  proof (cases x)
    case None
    then show ?thesis
      using Cons.IH by (cases "xs = []") (simp_all add: isna_def)
  next
    case (Some c)
    have "xs \<noteq> [] \<Longrightarrow> last (ewm_from \<alpha> (Some c) ow xs) \<in> set (ewm_from \<alpha> (Some c) ow xs)"
      by simp
    then have "xs \<noteq> [] \<Longrightarrow> last (ewm_from \<alpha> (Some c) ow xs) \<noteq> None"
      using ewm_from_Some_defined [of \<alpha> c ow xs] by metis
    then show ?thesis
      using Some by (cases "xs = []") (auto simp: isna_def)
  qed
qed

lemma ewm_mean_last:
  assumes "xs \<noteq> []"
  shows "last (ewm_mean k xs) = None \<longleftrightarrow> list_all isna xs"
proof -
  obtain x rest where xs: "xs = x # rest"
    using assms by (cases xs) auto
  have "last (x # ewm_from \<alpha> x 1 rest) = None \<longleftrightarrow> list_all isna (x # rest)" for \<alpha>
    using ewm_from_None_last [of "x # rest" \<alpha> 1] by (cases x) (simp_all add: isna_def)
  then show ?thesis
    by (simp add: xs ewm_mean_def)
qed

lemma s_sub_last:
  assumes "length xs = length ys" "xs \<noteq> []"
  shows "last (s_sub xs ys) = None \<longleftrightarrow> last xs = None \<or> last ys = None"
proof -
  have ys: "ys \<noteq> []"
    using assms by (metis length_0_conv)
  have len: "length (s_sub xs ys) = length xs"
    using assms by simp
  have ne: "s_sub xs ys \<noteq> []" "length xs - 1 < length xs" "length xs - 1 < length ys"
    using assms ys len by (metis length_0_conv, simp_all)
  have "last (s_sub xs ys) = s_sub xs ys ! (length xs - 1)"
    using ne len by (simp add: last_conv_nth)
  moreover have "last xs = xs ! (length xs - 1)" "last ys = ys ! (length xs - 1)"
    using assms ys by (simp_all add: last_conv_nth)
  ultimately show ?thesis
    using ne by (auto simp: s_sub_def split: option.splits)
qed

lemma add_macd_cols:
  assumes "getcol df ''Close'' = Inr c"
  shows "\<exists>df'. add_macd df = Inr df' \<and> nrows df' = nrows df
           \<and> getcol df' ''MACD'' = Inr (s_sub (ewm_mean 12 c) (ewm_mean 26 c))
           \<and> getcol df' ''MACD_Signal'' = Inr (ewm_mean 9 (s_sub (ewm_mean 12 c) (ewm_mean 26 c)))"
  using assms by (simp add: add_macd_def Let_def)

lemma macd_last_undefined:
  assumes "c \<noteq> []"
  shows "last (s_sub (ewm_mean 12 c) (ewm_mean 26 c)) = None \<longleftrightarrow> list_all isna c"
proof -
  have "last (s_sub (ewm_mean 12 c) (ewm_mean 26 c)) = None \<longleftrightarrow>
        last (ewm_mean 12 c) = None \<or> last (ewm_mean 26 c) = None"
    using assms by (intro s_sub_last) simp_all
  then show ?thesis
    using assms by (simp add: ewm_mean_last)
qed

section \<open>The oscillator of a constant series, and when it is undefined\<close>

text \<open>
  C8. When every close is one and the same number, both exponential means equal that
  number at every bar, so the oscillator \<^verbatim>\<open>MACD\<close> and its signal line are exactly 0 at
  every bar, for every length of the series (highs and lows play no part).
\<close>

theorem constant_close_macd_zero:
  assumes "getcol df ''Close'' = Inr (replicate n (Some c))"
  shows "ewm_mean 12 (replicate n (Some c)) = replicate n (Some c) \<and>
         ewm_mean 26 (replicate n (Some c)) = replicate n (Some c) \<and>
         (\<exists>df'. add_macd df = Inr df' \<and>
            getcol df' ''MACD'' = Inr (replicate n (Some 0)) \<and>
            getcol df' ''MACD_Signal'' = Inr (replicate n (Some 0)))"
  using add_macd_cols [OF assms] by (auto simp: ewm_mean_const s_sub_const)

theorem constant_close_macd_zero_witness:
  "\<exists>df'. add_macd (flat_frame (replicate 100 (Some 5))) = Inr df' \<and>
     getcol df' ''MACD'' = Inr (replicate 100 (Some 0)) \<and>
     getcol df' ''MACD_Signal'' = Inr (replicate 100 (Some 0))"
  using constant_close_macd_zero [of "flat_frame (replicate 100 (Some 5))" 100 5] by simp

lemma daily_gate_undefined:
  assumes wf: "wf_frame df" and n: "0 < nrows df"
    and h: "getcol df ''High'' = Inr h" and l: "getcol df ''Low'' = Inr l"
    and c: "getcol df ''Close'' = Inr c"
  shows "\<exists>df' m. add_macd df = Inr df' \<and> cell df' ''MACD'' (- 1) = Inr m \<and>
           (isna m \<longleftrightarrow> list_all isna c) \<and>
           (daily_gate df = Inr Undefined_MACD \<longleftrightarrow> list_all isna c)"
proof -
  have len: "length c = nrows df"
    using wf c by (rule getcol_length)
  then have ne: "c \<noteq> []"
    using n by auto
  let ?macd = "s_sub (ewm_mean 12 c) (ewm_mean 26 c)"
  obtain df' where df': "add_macd df = Inr df'" and m: "getcol df' ''MACD'' = Inr ?macd"
    using add_macd_cols [OF c] by blast
  have "?macd \<noteq> []"
    using ne by (metis length_0_conv length_ewm_mean length_s_sub min.idem)
  then have cm: "cell df' ''MACD'' (- 1) = Inr (last ?macd)"
    using m by (rule cell_last [rotated])
  have na: "isna (last ?macd) \<longleftrightarrow> list_all isna c"
    using macd_last_undefined [OF ne] by (simp add: isna_def)
  obtain b where b: "is_above_cloud df = Inr b"
    using is_above_cloud_short [of df] is_above_cloud_long [OF _ wf h l c]
    by (cases "nrows df < 100") (auto simp: not_less)
  have "daily_gate df = Inr Undefined_MACD \<longleftrightarrow> list_all isna c"
  proof (cases "isna (last ?macd)")
    case True
    then show ?thesis
      using na by (simp add: daily_gate_def b df' cm)
  next
    case False
    then show ?thesis
      using na by (cases "macd_cross df'") (simp_all add: daily_gate_def b df' cm)
  qed
  then show ?thesis
    using df' cm na by blast
qed

text \<open>
  C10, as amended. On a non-empty frame with its price columns, the latest oscillator is
  NaN exactly when every close is NaN, and exactly then the pipeline leaves through the
  \<^verbatim>\<open>return False\<close> of line 62. So on a series with at least one close that is a number
  the latest oscillator is defined and that branch is not taken; a frame of NaN closes
  passes the guard of line 56 and takes it.
\<close>

theorem latest_macd_defined:
  assumes "wf_frame df" "0 < nrows df"
    and "getcol df ''High'' = Inr h" "getcol df ''Low'' = Inr l" "getcol df ''Close'' = Inr c"
  shows "\<exists>df' m. add_macd df = Inr df' \<and> cell df' ''MACD'' (- 1) = Inr m \<and>
           (isna m \<longleftrightarrow> list_all isna c) \<and>
           (daily_gate df = Inr Undefined_MACD \<longleftrightarrow> list_all isna c)"
  using assms by (rule daily_gate_undefined)

theorem latest_macd_defined_witness:
  "\<not> list_all isna rising \<and> daily_gate (flat_frame rising) \<noteq> Inr Undefined_MACD \<and>
   (\<exists>df' v. add_macd (flat_frame rising) = Inr df' \<and> cell df' ''MACD'' (- 1) = Inr (Some v))"
proof -
  have r: "\<not> list_all isna rising"
    by (simp add: rising_def isna_def)
  have "wf_frame (flat_frame rising)" "0 < nrows (flat_frame rising)"
    by (simp_all add: rising_def)
  then obtain df' m where "add_macd (flat_frame rising) = Inr df'"
    "cell df' ''MACD'' (- 1) = Inr m" "isna m \<longleftrightarrow> list_all isna rising"
    "daily_gate (flat_frame rising) = Inr Undefined_MACD \<longleftrightarrow> list_all isna rising"
    using latest_macd_defined [of "flat_frame rising" rising rising rising] by auto
  with r show ?thesis
    by (cases m) (auto simp: isna_def)
qed

theorem nan_closes_counterexample:
  "\<not> df_empty (flat_frame (replicate 100 None)) \<and>
   \<not> nrows (flat_frame (replicate 100 None)) < 100 \<and>
   daily_gate (flat_frame (replicate 100 None)) = Inr Undefined_MACD"
proof -
  have "list_all isna (replicate 100 None)"
    by (simp add: isna_def list_all_iff)
  moreover have "wf_frame (flat_frame (replicate 100 None))"
    "0 < nrows (flat_frame (replicate 100 None))"
    by simp_all
  ultimately have "daily_gate (flat_frame (replicate 100 None)) = Inr Undefined_MACD"
    using daily_gate_undefined
      [of "flat_frame (replicate 100 None)" "replicate 100 None" "replicate 100 None"
        "replicate 100 None"]
    by auto
  then show ?thesis
    by simp
qed

section \<open>The momentum cross\<close>

lemma macd_cross_cols:
  assumes m: "getcol df ''MACD'' = Inr m" and s: "getcol df ''MACD_Signal'' = Inr s"
    and len: "length s = length m" "2 \<le> length m"
  shows "macd_cross df =
           Inr (f_le (m ! (length m - 2)) (s ! (length m - 2)) \<and>
                f_gt (m ! (length m - 1)) (s ! (length m - 1)))"
proof -
  have ne: "m \<noteq> []" "s \<noteq> []"
    using len by auto
  have "cell df ''MACD'' (- 2) = Inr (m ! (length m - 2))"
    "cell df ''MACD_Signal'' (- 2) = Inr (s ! (length m - 2))"
    using m s len by (simp_all add: cell_def iloc_prev)
  moreover have "cell df ''MACD'' (- 1) = Inr (m ! (length m - 1))"
    "cell df ''MACD_Signal'' (- 1) = Inr (s ! (length m - 1))"
    using m s len ne by (simp_all add: cell_def iloc_last last_conv_nth)
  ultimately show ?thesis
    by (simp add: macd_cross_def)
qed

lemma ewm_from_take: "take k (ewm_from \<alpha> w ow xs) = ewm_from \<alpha> w ow (take k xs)"
proof (induction \<alpha> w ow xs arbitrary: k rule: ewm_from.induct)
  case (1 \<alpha> weighted old_wt)
  then show ?case by simp
next
  case (2 \<alpha> old_wt cur rest)
  then show ?case by (cases k) simp_all
next
  case (3 \<alpha> w old_wt rest)
  then show ?case by (cases k) simp_all
next
  case (4 \<alpha> w old_wt c rest)
  then show ?case by (cases k) (simp_all add: Let_def)
qed

lemma ewm_mean_take: "take k (ewm_mean n xs) = ewm_mean n (take k xs)"
proof (cases xs)
  case Nil
  then show ?thesis by (simp add: ewm_mean_def)
next
  case (Cons x rest)
  then show ?thesis
    by (cases k) (simp_all add: ewm_mean_def ewm_from_take)
qed

lemma s_sub_take: "take k (s_sub xs ys) = s_sub (take k xs) (take k ys)"
  by (simp add: s_sub_def take_map take_zip)

lemma blend_between:
  fixes w y \<alpha> :: real
  assumes "0 < \<alpha>" "\<alpha> < 1" "w \<le> y"
  defines "b \<equiv> (if w \<noteq> y then (1 * (1 - \<alpha>) * w + \<alpha> * y) / (1 * (1 - \<alpha>) + \<alpha>) else w)"
  shows "w \<le> b" "b \<le> y" "b = y \<longleftrightarrow> y = w"
proof -
  have b: "b = w + \<alpha> * (y - w)"
    by (simp add: b_def algebra_simps)
  have "0 \<le> \<alpha> * (y - w)"
    using assms by simp
  then show "w \<le> b"
    by (simp add: b)
  have "y - b = (1 - \<alpha>) * (y - w)"
    by (simp add: b algebra_simps)
  moreover have "0 \<le> (1 - \<alpha>) * (y - w)"
    using assms by simp
  ultimately show "b \<le> y"
    by linarith
  have "(1 - \<alpha>) * (y - w) = 0 \<longleftrightarrow> y = w"
    using assms by simp
  then show "b = y \<longleftrightarrow> y = w"
    using \<open>y - b = (1 - \<alpha>) * (y - w)\<close> by (metis eq_iff_diff_eq_0)
qed

lemma ewm_from_sorted:
  assumes "0 < \<alpha>" "\<alpha> < 1" "sorted (w # ys)"
  shows "\<exists>rs. ewm_from \<alpha> (Some w) 1 (map Some ys) = map Some rs \<and> length rs = length ys \<and>
           (\<forall>j<length ys. w \<le> rs ! j \<and> rs ! j \<le> ys ! j \<and> (rs ! j = ys ! j \<longleftrightarrow> ys ! j = w))"
  using assms(3)
proof (induction ys arbitrary: w)
  case Nil
  then show ?case by simp
next
  case (Cons y ys)
  define b where "b = (if w \<noteq> y then (1 * (1 - \<alpha>) * w + \<alpha> * y) / (1 * (1 - \<alpha>) + \<alpha>) else w)"
  have wy: "w \<le> y" and above_y: "\<forall>z\<in>set ys. y \<le> z" and srt: "sorted ys"
    using Cons.prems by auto
  have b: "w \<le> b" "b \<le> y" "b = y \<longleftrightarrow> y = w"
    using blend_between [OF assms(1,2) wy] by (simp_all add: b_def)
  have "sorted (b # ys)"
    using b(2) above_y srt by auto
  then obtain rs where rs: "ewm_from \<alpha> (Some b) 1 (map Some ys) = map Some rs"
    "length rs = length ys"
    "\<forall>j<length ys. b \<le> rs ! j \<and> rs ! j \<le> ys ! j \<and> (rs ! j = ys ! j \<longleftrightarrow> ys ! j = b)"
    using Cons.IH by blast
  have step: "ewm_from \<alpha> (Some w) 1 (map Some (y # ys)) = map Some (b # rs)"
    using rs(1) by (cases "w = y") (simp_all add: Let_def b_def)
  have "w \<le> (b # rs) ! j \<and> (b # rs) ! j \<le> (y # ys) ! j \<and>
        ((b # rs) ! j = (y # ys) ! j \<longleftrightarrow> (y # ys) ! j = w)" if "j < length (y # ys)" for j
  proof (cases j)
    case 0
    then show ?thesis
      using b by simp
  next
    case (Suc i)
    then have i: "i < length ys"
      using that by simp
    then have "y \<le> ys ! i"
      using above_y by simp
    moreover have "b \<le> rs ! i" "rs ! i \<le> ys ! i" "rs ! i = ys ! i \<longleftrightarrow> ys ! i = b"
      using rs(3) i by simp_all
    ultimately show ?thesis
      using Suc b wy by (cases "w = y") auto
  qed
  then show ?case
    using step rs(2) by (intro exI [of _ "b # rs"]) simp
qed

lemma signal_of_sorted:
  assumes "sorted ys" "ys \<noteq> []"
  shows "\<exists>ss. ewm_mean 9 (map Some ys) = map Some ss \<and> length ss = length ys \<and>
           (\<forall>j<length ys. ss ! j \<le> ys ! j \<and> (ss ! j = ys ! j \<longleftrightarrow> ys ! j = ys ! 0))"
proof -
  obtain y rest where ys: "ys = y # rest"
    using assms(2) by (cases ys) auto
  have "(0::real) < 2 / (real 9 + 1)" "2 / (real 9 + 1) < (1::real)"
    by simp_all
  then obtain rs where rs: "ewm_from (2 / (real 9 + 1)) (Some y) 1 (map Some rest) = map Some rs"
    "length rs = length rest"
    "\<forall>j<length rest. y \<le> rs ! j \<and> rs ! j \<le> rest ! j \<and> (rs ! j = rest ! j \<longleftrightarrow> rest ! j = y)"
    using ewm_from_sorted [of "2 / (real 9 + 1)" y rest] assms(1) ys by blast
  have "ewm_mean 9 (map Some ys) = map Some (y # rs)"
    using rs(1) by (simp add: ewm_mean_def ys)
  moreover have "(y # rs) ! j \<le> ys ! j \<and> ((y # rs) ! j = ys ! j \<longleftrightarrow> ys ! j = ys ! 0)"
    if "j < length ys" for j
    using that rs(3) by (cases j) (simp_all add: ys)
  ultimately show ?thesis
    using rs(2) by (intro exI [of _ "y # rs"]) (simp add: ys)
qed

lemma cross_at_bar_sorted:
  assumes osc: "s_sub (ewm_mean 12 c) (ewm_mean 26 c) = map Some ys" and srt: "sorted ys"
    and k: "2 \<le> k" "k \<le> length c"
  shows "cross_at_bar c k = Inr (ys ! (k - 2) = ys ! 0 \<and> ys ! 0 < ys ! (k - 1))"
proof -
  let ?df = "\<lparr>nrows = k, cols = [(''Close'', take k c)]\<rparr>"
  let ?m = "map Some (take k ys)"
  have len: "length ys = length c"
    using arg_cong [OF osc, of length] by simp
  have "s_sub (ewm_mean 12 (take k c)) (ewm_mean 26 (take k c)) = take k (map Some ys)"
    by (simp add: osc [symmetric] s_sub_take ewm_mean_take)
  then have m: "s_sub (ewm_mean 12 (take k c)) (ewm_mean 26 (take k c)) = ?m"
    by (simp add: take_map)
  have "getcol ?df ''Close'' = Inr (take k c)"
    by (simp add: getcol_def)
  then obtain df' where df': "add_macd ?df = Inr df'"
    and gm: "getcol df' ''MACD'' = Inr ?m"
    and gs: "getcol df' ''MACD_Signal'' = Inr (ewm_mean 9 ?m)"
    using add_macd_cols [of ?df "take k c"] m by auto
  have tk: "sorted (take k ys)" "take k ys \<noteq> []" "length (take k ys) = k"
    using srt k len by (auto simp: sorted_wrt_take)
  then obtain ss where ss: "ewm_mean 9 ?m = map Some ss" "length ss = k"
    and below: "\<forall>j<k. ss ! j \<le> take k ys ! j \<and> (ss ! j = take k ys ! j \<longleftrightarrow> take k ys ! j = take k ys ! 0)"
    using signal_of_sorted [of "take k ys"] by auto
  have cross: "macd_cross df' =
      Inr (f_le (?m ! (k - 2)) (map Some ss ! (k - 2)) \<and> f_gt (?m ! (k - 1)) (map Some ss ! (k - 1)))"
    using macd_cross_cols [OF gm, of "map Some ss"] gs ss tk(3) k(1) by simp
  have a: "ss ! (k - 2) \<le> ys ! (k - 2)" "ss ! (k - 2) = ys ! (k - 2) \<longleftrightarrow> ys ! (k - 2) = ys ! 0"
    using below [rule_format, of "k - 2"] k by simp_all
  have b: "ss ! (k - 1) \<le> ys ! (k - 1)" "ss ! (k - 1) = ys ! (k - 1) \<longleftrightarrow> ys ! (k - 1) = ys ! 0"
    using below [rule_format, of "k - 1"] k by simp_all
  have "ys ! 0 \<le> ys ! (k - 1)"
    using srt k len by (intro sorted_nth_mono) simp_all
  then have "f_le (?m ! (k - 2)) (map Some ss ! (k - 2)) \<longleftrightarrow> ys ! (k - 2) = ys ! 0"
    and "f_gt (?m ! (k - 1)) (map Some ss ! (k - 1)) \<longleftrightarrow> ys ! 0 < ys ! (k - 1)"
    using a b k ss(2) tk(3) by (auto simp: f_le_def f_gt_def)
  then show ?thesis
    by (simp add: cross_at_bar_def df' cross)
qed

lemma cross_at_bar_unique:
  assumes osc: "s_sub (ewm_mean 12 c) (ewm_mean 26 c) = map Some ys" and srt: "sorted ys"
    and k: "2 \<le> k" "k \<le> length c" "cross_at_bar c k = Inr True"
    and k': "2 \<le> k'" "k' \<le> length c" "cross_at_bar c k' = Inr True"
  shows "k = k'"
proof -
  have len: "length ys = length c"
    using arg_cong [OF osc, of length] by simp
  have fk: "ys ! (k - 2) = ys ! 0" "ys ! 0 < ys ! (k - 1)"
    using cross_at_bar_sorted [OF osc srt k(1,2)] k(3) by simp_all
  have fk': "ys ! (k' - 2) = ys ! 0" "ys ! 0 < ys ! (k' - 1)"
    using cross_at_bar_sorted [OF osc srt k'(1,2)] k'(3) by simp_all
  have "\<not> k < k'"
  proof
    assume "k < k'"
    then have "ys ! (k - 1) \<le> ys ! (k' - 2)"
      using srt k k' len by (intro sorted_nth_mono) simp_all
    then show False
      using fk fk' by simp
  qed
  moreover have "\<not> k' < k"
  proof
    assume "k' < k"
    then have "ys ! (k' - 1) \<le> ys ! (k - 2)"
      using srt k k' len by (intro sorted_nth_mono) simp_all
    then show False
      using fk fk' by simp
  qed
  ultimately show ?thesis
    by simp
qed

lemma cross_at_bar_exists:
  assumes osc: "s_sub (ewm_mean 12 c) (ewm_mean 26 c) = map Some ys" and srt: "sorted ys"
    and rise: "c \<noteq> []" "ys ! 0 < last ys"
  shows "\<exists>k. 2 \<le> k \<and> k \<le> length c \<and> cross_at_bar c k = Inr True"
proof -
  have len: "length ys = length c"
    using arg_cong [OF osc, of length] by simp
  then have ne: "ys \<noteq> []"
    using rise(1) by auto
  define j where "j = (LEAST j. j < length ys \<and> ys ! 0 < ys ! j)"
  have ex: "length ys - 1 < length ys \<and> ys ! 0 < ys ! (length ys - 1)"
    using rise(2) ne by (simp add: last_conv_nth)
  have j: "j < length ys" "ys ! 0 < ys ! j"
    using LeastI [of "\<lambda>j. j < length ys \<and> ys ! 0 < ys ! j", OF ex] by (simp_all add: j_def)
  have least: "\<not> (i < length ys \<and> ys ! 0 < ys ! i)" if "i < j" for i
    using not_less_Least [of i "\<lambda>j. j < length ys \<and> ys ! 0 < ys ! j"] that by (simp add: j_def)
  have "j \<noteq> 0"
    using j(2) by (cases j) simp_all
  then have "\<not> ys ! 0 < ys ! (j - 1)"
    using least [of "j - 1"] j(1) by simp
  moreover have "ys ! 0 \<le> ys ! (j - 1)"
    using srt j(1) by (intro sorted_nth_mono) simp_all
  ultimately have "ys ! (j - 1) = ys ! 0"
    by simp
  then have "cross_at_bar c (j + 1) = Inr True"
    using cross_at_bar_sorted [OF osc srt, of "j + 1"] j \<open>j \<noteq> 0\<close> len by simp
  then show ?thesis
    using j(1) \<open>j \<noteq> 0\<close> len by (intro exI [of _ "j + 1"]) simp
qed

lemma rise_osc:
  "s_sub (ewm_mean 12 [Some 1, Some 1, Some 2, Some 3]) (ewm_mean 26 [Some 1, Some 1, Some 2, Some 3])
     = map Some [0, 0, 28 / 351, 27244 / 123201]"
  by code_simp

text \<open>
  C6. The cross compares the last two bars: it is true exactly when, at the bar just
  before the latest one (\<^verbatim>\<open>iloc[-2]\<close>, the earlier bar of the most recent transition), the
  oscillator is at most its signal and, at the latest bar, the oscillator is strictly
  above its signal; a NaN on either side makes a comparison false. When the oscillator
  of a close series never decreases, the cross taken at bar \<open>k - 1\<close> (on the first \<open>k\<close>
  bars) is true exactly when the oscillator still had its first value one bar earlier and
  is above it now: it is true on at most one bar, and on exactly one when the oscillator
  rises at all.
\<close>

theorem macd_cross_latest_transition:
  "(getcol df ''MACD'' = Inr m \<and> getcol df ''MACD_Signal'' = Inr s \<and> length s = length m
      \<and> 2 \<le> length m \<longrightarrow>
      macd_cross df =
        Inr (f_le (m ! (length m - 2)) (s ! (length m - 2)) \<and>
             f_gt (m ! (length m - 1)) (s ! (length m - 1)))) \<and>
   (s_sub (ewm_mean 12 c) (ewm_mean 26 c) = map Some ys \<and> sorted ys \<longrightarrow>
      (\<forall>k. 2 \<le> k \<and> k \<le> length c \<longrightarrow>
         cross_at_bar c k = Inr (ys ! (k - 2) = ys ! 0 \<and> ys ! 0 < ys ! (k - 1))) \<and>
      (\<forall>k k'. 2 \<le> k \<and> k \<le> length c \<and> cross_at_bar c k = Inr True \<and>
               2 \<le> k' \<and> k' \<le> length c \<and> cross_at_bar c k' = Inr True \<longrightarrow> k = k') \<and>
      (c \<noteq> [] \<and> ys ! 0 < last ys \<longrightarrow>
         (\<exists>k. 2 \<le> k \<and> k \<le> length c \<and> cross_at_bar c k = Inr True)))"
proof (intro conjI impI allI)
  assume "getcol df ''MACD'' = Inr m \<and> getcol df ''MACD_Signal'' = Inr s \<and> length s = length m
      \<and> 2 \<le> length m"
  then show "macd_cross df =
        Inr (f_le (m ! (length m - 2)) (s ! (length m - 2)) \<and>
             f_gt (m ! (length m - 1)) (s ! (length m - 1)))"
    by (intro macd_cross_cols) simp_all
next
  fix k
  assume "s_sub (ewm_mean 12 c) (ewm_mean 26 c) = map Some ys \<and> sorted ys"
    and "2 \<le> k \<and> k \<le> length c"
  then show "cross_at_bar c k = Inr (ys ! (k - 2) = ys ! 0 \<and> ys ! 0 < ys ! (k - 1))"
    by (intro cross_at_bar_sorted) simp_all
next
  fix k k'
  assume "s_sub (ewm_mean 12 c) (ewm_mean 26 c) = map Some ys \<and> sorted ys"
    and "2 \<le> k \<and> k \<le> length c \<and> cross_at_bar c k = Inr True \<and>
         2 \<le> k' \<and> k' \<le> length c \<and> cross_at_bar c k' = Inr True"
  then show "k = k'"
    using cross_at_bar_unique [of c ys k k'] by simp
next
  assume "s_sub (ewm_mean 12 c) (ewm_mean 26 c) = map Some ys \<and> sorted ys"
    and "c \<noteq> [] \<and> ys ! 0 < last ys"
  then show "\<exists>k. 2 \<le> k \<and> k \<le> length c \<and> cross_at_bar c k = Inr True"
    using cross_at_bar_exists [of c ys] by simp
qed

theorem macd_cross_latest_transition_witness:
  "macd_cross \<lparr>nrows = 2, cols = [(''MACD'', [Some 0, Some 1]), (''MACD_Signal'', [Some 0, Some (1 / 5)])]\<rparr>
     = Inr True \<and>
   cross_at_bar [Some 1, Some 1, Some 2, Some 3] 2 = Inr False \<and>
   cross_at_bar [Some 1, Some 1, Some 2, Some 3] 3 = Inr True \<and>
   cross_at_bar [Some 1, Some 1, Some 2, Some 3] 4 = Inr False"
proof -
  let ?df = "\<lparr>nrows = 2, cols = [(''MACD'', [Some 0, Some 1]), (''MACD_Signal'', [Some 0, Some (1 / 5)])]\<rparr>"
  let ?c = "[Some 1, Some 1, Some 2, Some 3] :: series"
  let ?ys = "[0, 0, 28 / 351, 27244 / 123201] :: real list"
  note inst = macd_cross_latest_transition
    [where df = ?df and m = "[Some 0, Some 1]" and s = "[Some 0, Some (1 / 5)]"
      and c = ?c and ys = ?ys]
  have cols: "getcol ?df ''MACD'' = Inr [Some 0, Some 1] \<and>
      getcol ?df ''MACD_Signal'' = Inr [Some 0, Some (1 / 5)] \<and>
      length [Some 0, Some (1 / 5 :: real)] = length [Some 0, Some (1 :: real)] \<and>
      2 \<le> length [Some 0, Some (1 :: real)]"
    by (simp add: getcol_def)
  have "macd_cross ?df = Inr True"
    using inst [THEN conjunct1, rule_format, OF cols] by (simp add: f_le_def f_gt_def)
  moreover have osc: "s_sub (ewm_mean 12 ?c) (ewm_mean 26 ?c) = map Some ?ys \<and> sorted ?ys"
    using rise_osc by simp
  have at: "cross_at_bar ?c k = Inr (?ys ! (k - 2) = ?ys ! 0 \<and> ?ys ! 0 < ?ys ! (k - 1))"
    if "2 \<le> k \<and> k \<le> length ?c" for k
    using inst [THEN conjunct2, rule_format, OF osc, THEN conjunct1, rule_format, OF that] .
  have "cross_at_bar ?c 2 = Inr False" "cross_at_bar ?c 3 = Inr True" "cross_at_bar ?c 4 = Inr False"
    using at [of 2] at [of 3] at [of 4] by (simp_all add: numeral_3_eq_3)
  ultimately show ?thesis
    by simp
qed

text \<open>
  The bar before the last two plays no part. On 98 closes at 1 followed by 2 and 3, the
  oscillator equals its signal at \<^verbatim>\<open>iloc[-3]\<close> and is above it at the latest bar, yet the
  cross is false, because the oscillator is already above its signal at \<^verbatim>\<open>iloc[-2]\<close>.
\<close>

lemma third_last_bar_plays_no_part:
  "ebind (add_macd (flat_frame two_day_rise)) macd_cross = Inr False \<and>
   ebind (add_macd (flat_frame two_day_rise)) (\<lambda>d.
     ebind (cell d ''MACD'' (- 3)) (\<lambda>m3.
     ebind (cell d ''MACD_Signal'' (- 3)) (\<lambda>s3.
     ebind (cell d ''MACD'' (- 1)) (\<lambda>m1.
     ebind (cell d ''MACD_Signal'' (- 1)) (\<lambda>s1.
       Inr (f_le m3 s3 \<and> f_gt m1 s1)))))) = Inr True"
  by code_simp

section \<open>Symbol normalization\<close>

lemma py_replace_char:
  "py_replace [a] [b] s = map (\<lambda>c. if c = a then b else c) s"
proof (induction s)
  case Nil
  then show ?case
    by (simp add: py_replace.simps)
next
  case (Cons x xs)
  then show ?case
    by (subst py_replace.simps) simp
qed

text \<open>
  C9. \<^verbatim>\<open>ticker.replace('.', '-')\<close> turns every \<open>.\<close> of a symbol into \<open>-\<close> and leaves every
  other character as it is, so no \<open>.\<close> is left; doing it twice is doing it once, and a
  symbol without \<open>.\<close> comes back unchanged. The same holds for the whole ticker list.
\<close>

theorem normalization_idempotent:
  "py_replace ''.'' ''-'' s = map (\<lambda>c. if c = CHR ''.'' then CHR ''-'' else c) s \<and>
   CHR ''.'' \<notin> set (py_replace ''.'' ''-'' s) \<and>
   py_replace ''.'' ''-'' (py_replace ''.'' ''-'' s) = py_replace ''.'' ''-'' s \<and>
   (CHR ''.'' \<notin> set s \<longrightarrow> py_replace ''.'' ''-'' s = s) \<and>
   get_sp500_tickers (get_sp500_tickers symbols) = get_sp500_tickers symbols"
proof -
  have 1: "py_replace ''.'' ''-'' t = map (\<lambda>c. if c = CHR ''.'' then CHR ''-'' else c) t" for t
    by (rule py_replace_char)
  have 2: "CHR ''.'' \<notin> set (py_replace ''.'' ''-'' t)" for t
    by (auto simp: 1)
  have 3: "py_replace ''.'' ''-'' t = t" if "CHR ''.'' \<notin> set t" for t
    using that unfolding 1 by (induction t) auto
  have 4: "py_replace ''.'' ''-'' (py_replace ''.'' ''-'' t) = py_replace ''.'' ''-'' t" for t
    using 2 by (rule 3)
  show ?thesis
    using 1 2 3 4 by (simp add: get_sp500_tickers_def)
qed

theorem normalization_idempotent_witness:
  "py_replace ''.'' ''-'' ''BRK.B'' = ''BRK-B'' \<and> py_replace ''.'' ''-'' ''AAPL'' = ''AAPL'' \<and>
   get_sp500_tickers (get_sp500_tickers [''BF.B'', ''MMM'']) = [''BF-B'', ''MMM'']"
proof -
  have "py_replace ''.'' ''-'' ''AAPL'' = ''AAPL''"
    using normalization_idempotent [of "''AAPL''"] by simp
  moreover have "py_replace ''.'' ''-'' ''BRK.B'' = ''BRK-B''"
    using normalization_idempotent [of "''BRK.B''"] by simp
  moreover have "py_replace ''.'' ''-'' ''BF.B'' = ''BF-B''" "py_replace ''.'' ''-'' ''MMM'' = ''MMM''"
    using normalization_idempotent [of "''BF.B''"] normalization_idempotent [of "''MMM''"]
    by simp_all
  then have "get_sp500_tickers [''BF.B'', ''MMM''] = [''BF-B'', ''MMM'']"
    by (simp add: get_sp500_tickers_def)
  then have "get_sp500_tickers (get_sp500_tickers [''BF.B'', ''MMM'']) = [''BF-B'', ''MMM'']"
    using normalization_idempotent [of "[]" "[''BF.B'', ''MMM'']"] by simp
  ultimately show ?thesis
    by simp
qed

section \<open>The decision pipeline: what it returns and what it fetches\<close>

lemma daily_gate_passed:
  "daily_gate d = Inr Passed \<longleftrightarrow>
     is_above_cloud d = Inr True \<and>
     (\<exists>d1 v. add_macd d = Inr d1 \<and> cell d1 ''MACD'' (- 1) = Inr (Some v) \<and>
        macd_cross d1 = Inr True)"
  by (auto simp: daily_gate_def ebind_def isna_def split: sum.splits if_splits)

lemma is_bullish_try_daily_raises:
  "yf (t, ''3y'', ''1d'') = Inl e \<Longrightarrow>
   is_bullish_try yf t issued = (Inl e, issued @ [(t, ''3y'', ''1d'')])"
  by (simp add: is_bullish_try_def download_def)

lemma is_bullish_try_daily_short:
  "yf (t, ''3y'', ''1d'') = Inr d \<Longrightarrow> df_empty d \<or> nrows d < 100 \<Longrightarrow>
   is_bullish_try yf t issued = (Inr False, issued @ [(t, ''3y'', ''1d'')])"
  by (simp add: is_bullish_try_def download_def)

lemma is_bullish_try_daily_gate:
  assumes "yf (t, ''3y'', ''1d'') = Inr d" "\<not> df_empty d" "100 \<le> nrows d"
    and "daily_gate d \<noteq> Inr Passed"
  shows "is_bullish_try yf t issued =
           (case daily_gate d of Inl e \<Rightarrow> Inl e | Inr g \<Rightarrow> Inr False, issued @ [(t, ''3y'', ''1d'')])"
  using assms
  by (cases "daily_gate d") (auto simp: is_bullish_try_def download_def split: gate.splits)

lemma is_bullish_try_passed:
  assumes "yf (t, ''3y'', ''1d'') = Inr d" "\<not> df_empty d" "100 \<le> nrows d"
    and "daily_gate d = Inr Passed"
  shows "is_bullish_try yf t issued =
           (case yf (t, ''730d'', ''60m'') of
              Inl e \<Rightarrow> (Inl e, issued @ [(t, ''3y'', ''1d''), (t, ''730d'', ''60m'')])
            | Inr h \<Rightarrow>
               (case yf (t, ''7d'', ''1m'') of
                  Inl e \<Rightarrow> (Inl e, issued @ [(t, ''3y'', ''1d''), (t, ''730d'', ''60m''), (t, ''7d'', ''1m'')])
                | Inr m \<Rightarrow> (lower_gate h m,
                     issued @ [(t, ''3y'', ''1d''), (t, ''730d'', ''60m''), (t, ''7d'', ''1m'')])))"
  using assms by (simp add: is_bullish_try_def download_def split: sum.splits)

lemma lower_gate_True:
  "lower_gate h m = Inr True \<longleftrightarrow>
     \<not> df_empty h \<and> \<not> df_empty m \<and> is_above_cloud h = Inr True \<and> is_above_cloud m = Inr True"
  by (auto simp: lower_gate_def ebind_def split: sum.splits)

lemma is_bullish_iff_try: "is_bullish yf t \<longleftrightarrow> fst (is_bullish_try yf t []) = Inr True"
  by (auto simp: is_bullish_def is_bullish_run_def split: prod.splits sum.splits)

lemma fetches_try: "fetches yf t = snd (is_bullish_try yf t [])"
  by (auto simp: fetches_def is_bullish_run_def split: prod.splits sum.splits)

lemma is_bullish_characterised:
  "is_bullish yf t \<longleftrightarrow>
     (\<exists>d h m. yf (t, ''3y'', ''1d'') = Inr d \<and> \<not> df_empty d \<and> 100 \<le> nrows d \<and>
        daily_gate d = Inr Passed \<and>
        yf (t, ''730d'', ''60m'') = Inr h \<and> yf (t, ''7d'', ''1m'') = Inr m \<and>
        lower_gate h m = Inr True)"
proof (cases "yf (t, ''3y'', ''1d'')")
  case (Inl e)
  then show ?thesis
    by (simp add: is_bullish_iff_try is_bullish_try_daily_raises)
next
  case (Inr d)
  show ?thesis
  proof (cases "df_empty d \<or> nrows d < 100")
    case True
    then show ?thesis
      using Inr by (auto simp: is_bullish_iff_try is_bullish_try_daily_short)
  next
    case False
    then have ok: "\<not> df_empty d" "100 \<le> nrows d"
      by simp_all
    show ?thesis
    proof (cases "daily_gate d = Inr Passed")
      case True
      show ?thesis
        using Inr ok True
        by (auto simp: is_bullish_iff_try is_bullish_try_passed [of yf t d, OF Inr ok True] split: sum.splits)
    next
      case False
      then show ?thesis
        using Inr ok
        by (auto simp: is_bullish_iff_try is_bullish_try_daily_gate [of yf t d, OF Inr ok False] split: sum.splits)
    qed
  qed
qed

lemma fetches_daily_only:
  assumes "\<not> (\<exists>d. yf (t, ''3y'', ''1d'') = Inr d \<and> \<not> df_empty d \<and> 100 \<le> nrows d \<and>
              daily_gate d = Inr Passed)"
  shows "fetches yf t = [(t, ''3y'', ''1d'')]"
proof (cases "yf (t, ''3y'', ''1d'')")
  case (Inl e)
  then show ?thesis
    by (simp add: fetches_try is_bullish_try_daily_raises)
next
  case (Inr d)
  show ?thesis
  proof (cases "df_empty d \<or> nrows d < 100")
    case True
    then show ?thesis
      using Inr by (auto simp: fetches_try is_bullish_try_daily_short)
  next
    case False
    then have ok: "\<not> df_empty d" "100 \<le> nrows d"
      by simp_all
    then have "daily_gate d \<noteq> Inr Passed"
      using assms Inr by auto
    then show ?thesis
      by (simp add: fetches_try is_bullish_try_daily_gate [of yf t d, OF Inr ok])
  qed
qed

lemma fetches_passed:
  assumes "yf (t, ''3y'', ''1d'') = Inr d" "\<not> df_empty d" "100 \<le> nrows d"
    and "daily_gate d = Inr Passed"
  shows "(t, ''730d'', ''60m'') \<in> set (fetches yf t)"
  by (auto simp: fetches_try is_bullish_try_passed [of yf t d, OF assms] split: sum.splits)

section \<open>The verdict, failures and fetches of the pipeline\<close>

lemma rising_above: "is_above_cloud (flat_frame rising) = Inr True"
  using is_above_cloud_long [of "flat_frame rising" rising rising rising]
  by (auto simp: rising_cloud above_def)

lemma rising_macd:
  "ebind (add_macd (flat_frame rising)) (\<lambda>d1.
     ebind (cell d1 ''MACD'' (- 1)) (\<lambda>m1.
       if isna m1 then Inr Undefined_MACD
       else ebind (macd_cross d1) (\<lambda>cross.
         if \<not> (True \<and> cross) then Inr No_Signal else Inr Passed))) = Inr Passed"
  by code_simp

lemma rising_gate: "daily_gate (flat_frame rising) = Inr Passed"
  using rising_macd by (simp add: daily_gate_def rising_above)

lemma close_only_raises: "is_above_cloud close_only = Inl KeyError"
  by (simp add: is_above_cloud_def close_only_def add_ichimoku_def getcol_def)

text \<open>
  C1. The pipeline qualifies a ticker exactly when: the daily fetch returns a frame that
  is not empty and has at least 100 rows; the cloud evaluation of the daily frame is
  true; the latest daily oscillator is a number; the momentum cross holds on the last two
  daily bars; the hourly and the minute fetch both return frames that are not empty; and
  the cloud evaluation is true on both. In every other case, a raised exception
  included, the verdict is false.
\<close>

theorem is_bullish_iff:
  "is_bullish yf t \<longleftrightarrow>
     (\<exists>d h m.
        yf (t, ''3y'', ''1d'') = Inr d \<and> \<not> df_empty d \<and> 100 \<le> nrows d \<and>
        is_above_cloud d = Inr True \<and>
        (\<exists>d1 v. add_macd d = Inr d1 \<and> cell d1 ''MACD'' (- 1) = Inr (Some v) \<and>
           macd_cross d1 = Inr True) \<and>
        yf (t, ''730d'', ''60m'') = Inr h \<and> yf (t, ''7d'', ''1m'') = Inr m \<and>
        \<not> df_empty h \<and> \<not> df_empty m \<and>
        is_above_cloud h = Inr True \<and> is_above_cloud m = Inr True)"
  unfolding is_bullish_characterised daily_gate_passed lower_gate_True by blast

theorem is_bullish_iff_witness:
  "is_bullish (\<lambda>rq. Inr (flat_frame rising)) ''AAA'' \<and>
   \<not> is_bullish (\<lambda>rq. Inr (flat_frame [])) ''AAA''"
proof
  have "daily_gate (flat_frame rising) = Inr Passed"
    by (rule rising_gate)
  then obtain d1 v where "add_macd (flat_frame rising) = Inr d1"
    "cell d1 ''MACD'' (- 1) = Inr (Some v)" "macd_cross d1 = Inr True"
    unfolding daily_gate_passed by blast
  moreover have "\<not> df_empty (flat_frame rising)" "100 \<le> nrows (flat_frame rising)"
    by (simp_all add: rising_def)
  ultimately show "is_bullish (\<lambda>rq. Inr (flat_frame rising)) ''AAA''"
    using rising_above
    unfolding is_bullish_iff [of "\<lambda>rq. Inr (flat_frame rising)" "''AAA''"] by blast
next
  show "\<not> is_bullish (\<lambda>rq. Inr (flat_frame [])) ''AAA''"
    unfolding is_bullish_iff [of "\<lambda>rq. Inr (flat_frame [])" "''AAA''"] by simp
qed

lemma is_above_cloud_no_close:
  assumes n: "100 \<le> nrows df" and wf: "wf_frame df"
    and h: "getcol df ''High'' = Inr h" and l: "getcol df ''Low'' = Inr l"
    and c: "getcol df ''Close'' = Inl KeyError"
  defines "a \<equiv> s_half (s_add (midline 9 h l) (midline 26 h l)) ! (nrows df - 27)"
    and "b \<equiv> midline 52 h l ! (nrows df - 27)"
  shows "is_above_cloud df = (if a = None \<or> b = None then Inr False else Inl KeyError)"
proof -
  have lens: "length h = nrows df" "length l = nrows df"
    using wf h l by (simp_all add: getcol_length)
  obtain df' where df': "add_ichimoku df = Inr df'"
    and sa: "getcol df' ''Senkou_A'' = Inr (shift 26 (s_half (s_add (midline 9 h l) (midline 26 h l))))"
    and sb: "getcol df' ''Senkou_B'' = Inr (shift 26 (midline 52 h l))"
    and cl: "getcol df' ''Close'' = Inl KeyError"
    using add_ichimoku_cols [OF h l] c by auto
  have ne: "shift 26 (s_half (s_add (midline 9 h l) (midline 26 h l))) \<noteq> []"
    "shift 26 (midline 52 h l) \<noteq> []"
    using n lens by (metis length_shift length_s_half length_s_add length_midline min.idem
        length_0_conv not_numeral_le_zero)+
  have ca: "cell df' ''Senkou_A'' (- 1) = Inr a"
    using n lens cell_last [OF sa ne(1)] by (simp add: last_shift a_def)
  have cb: "cell df' ''Senkou_B'' (- 1) = Inr b"
    using n lens cell_last [OF sb ne(2)] by (simp add: last_shift b_def)
  have cc: "cell df' ''Close'' (- 1) = Inl KeyError"
    by (simp add: cell_def cl)
  show ?thesis
    using n by (simp add: is_above_cloud_def df' ca cb cc isna_def)
qed

lemma is_above_cloud_raises_iff:
  assumes wf: "wf_frame df"
  shows "is_above_cloud df = Inl e \<longleftrightarrow>
           e = KeyError \<and> 100 \<le> nrows df \<and>
           (getcol df ''High'' = Inl KeyError \<or> getcol df ''Low'' = Inl KeyError \<or>
            (getcol df ''Close'' = Inl KeyError \<and>
             (\<exists>h l. getcol df ''High'' = Inr h \<and> getcol df ''Low'' = Inr l \<and>
                s_half (s_add (midline 9 h l) (midline 26 h l)) ! (nrows df - 27) \<noteq> None \<and>
                midline 52 h l ! (nrows df - 27) \<noteq> None)))"
proof (cases "nrows df < 100")
  case True
  then show ?thesis
    by (simp add: is_above_cloud_short)
next
  case False
  then have n: "100 \<le> nrows df"
    by simp
  have raised: "is_above_cloud df = Inl KeyError" if "add_ichimoku df = Inl KeyError"
    using that False by (simp add: is_above_cloud_def)
  show ?thesis
  proof (cases "getcol df ''High''")
    case (Inl x)
    then have "getcol df ''High'' = Inl KeyError"
      using getcol_raises by blast
    moreover from this have "add_ichimoku df = Inl KeyError"
      by (simp add: add_ichimoku_raises)
    ultimately show ?thesis
      using n raised by auto
  next
    case high: (Inr h)
    show ?thesis
    proof (cases "getcol df ''Low''")
      case (Inl x)
      then have "getcol df ''Low'' = Inl KeyError"
        using getcol_raises by blast
      moreover from this have "add_ichimoku df = Inl KeyError"
        by (simp add: add_ichimoku_raises)
      ultimately show ?thesis
        using n raised by auto
    next
      case low: (Inr l)
      show ?thesis
      proof (cases "getcol df ''Close''")
        case (Inl x)
        then have c: "getcol df ''Close'' = Inl KeyError"
          using getcol_raises by blast
        show ?thesis
          using is_above_cloud_no_close [OF n wf high low c] n high low c by auto
      next
        case (Inr c)
        then show ?thesis
          using is_above_cloud_long [OF n wf high low Inr] high low by auto
      qed
    qed
  qed
qed

lemma spans_only_False: "wf_frame spans_only \<and> is_above_cloud spans_only = Inr False"
proof -
  have wf: "wf_frame spans_only"
    by (simp add: spans_only_def wf_frame_def)
  have cols: "getcol spans_only ''High'' = Inr (replicate 100 None)"
    "getcol spans_only ''Low'' = Inr (replicate 100 None)"
    "getcol spans_only ''Close'' = Inl KeyError" "100 \<le> nrows spans_only"
    by (simp_all add: spans_only_def getcol_def)
  have "midline 52 (replicate 100 None) (replicate 100 None) ! 73 = None"
    by code_simp
  then show ?thesis
    using is_above_cloud_no_close [OF cols(4) wf cols(1,2,3)] wf
    by (simp add: spans_only_def)
qed

lemma spans_only_cols:
  "wf_frame spans_only" "100 \<le> nrows spans_only"
  "getcol spans_only ''High'' = Inr (replicate 100 None)"
  "getcol spans_only ''Low'' = Inr (replicate 100 None)"
  "getcol spans_only ''Close'' = Inl KeyError"
  "midline 52 (replicate 100 None) (replicate 100 None) ! (nrows spans_only - 27) = None"
  by (simp_all add: spans_only_def getcol_def wf_frame_def) code_simp

text \<open>
  C3, as amended. The pipeline never raises: whatever the provider returns or raises, it
  ends with a verdict, which is false whenever anything inside it raised, a failure of
  the cloud evaluation included. The cloud evaluation itself has no handler. On a frame
  whose columns are as long as its index it raises, and then a \<^verbatim>\<open>KeyError\<close>, to its caller
  exactly when the frame has at least 100 rows and lacks its High or its Low column, or
  lacks its Close column while both latest leading spans are numbers. In every other
  case it returns a boolean: below 100 rows, with all three columns, and also without
  Close when a latest leading span is NaN (line 47 returns before line 49 reads Close).
\<close>

theorem pipeline_never_raises:
  "(is_bullish yf t \<longleftrightarrow> fst (is_bullish_try yf t []) = Inr True) \<and>
   (fst (is_bullish_try yf t issued) = Inl e \<longrightarrow>
      is_bullish_run yf t issued = (False, snd (is_bullish_try yf t issued))) \<and>
   (yf (t, ''3y'', ''1d'') = Inr d \<and> is_above_cloud d = Inl e \<longrightarrow> \<not> is_bullish yf t) \<and>
   (is_above_cloud df = Inl e \<longrightarrow> 100 \<le> nrows df) \<and>
   (wf_frame df \<longrightarrow>
      (is_above_cloud df = Inl e \<longleftrightarrow>
         e = KeyError \<and> 100 \<le> nrows df \<and>
         (getcol df ''High'' = Inl KeyError \<or> getcol df ''Low'' = Inl KeyError \<or>
          (getcol df ''Close'' = Inl KeyError \<and>
           (\<exists>h l. getcol df ''High'' = Inr h \<and> getcol df ''Low'' = Inr l \<and>
              s_half (s_add (midline 9 h l) (midline 26 h l)) ! (nrows df - 27) \<noteq> None \<and>
              midline 52 h l ! (nrows df - 27) \<noteq> None)))))"
proof -
  have 1: "is_bullish yf t \<longleftrightarrow> fst (is_bullish_try yf t []) = Inr True"
    by (rule is_bullish_iff_try)
  have 2: "is_bullish_run yf t issued = (False, snd (is_bullish_try yf t issued))"
    if "fst (is_bullish_try yf t issued) = Inl e"
    using that by (cases "is_bullish_try yf t issued") (simp add: is_bullish_run_def)
  have 3: "\<not> is_bullish yf t" if "yf (t, ''3y'', ''1d'') = Inr d \<and> is_above_cloud d = Inl e"
    using that unfolding is_bullish_characterised daily_gate_passed by auto
  have 4: "100 \<le> nrows df" if "is_above_cloud df = Inl e"
    using that is_above_cloud_short [of df] by (cases "nrows df < 100") simp_all
  show ?thesis
    using 1 2 3 4 is_above_cloud_raises_iff [of df e] by blast
qed

theorem pipeline_never_raises_witness:
  "\<not> is_bullish (\<lambda>rq. Inr close_only) ''AAA'' \<and>
   is_bullish_run (\<lambda>rq. Inl ProviderError) ''AAA'' [] = (False, [(''AAA'', ''3y'', ''1d'')]) \<and>
   is_above_cloud close_only = Inl KeyError \<and>
   is_above_cloud spans_only \<noteq> Inl KeyError"
proof (intro conjI)
  show "\<not> is_bullish (\<lambda>rq. Inr close_only) ''AAA''"
    using pipeline_never_raises [of "\<lambda>rq. Inr close_only" "''AAA''" _ _ close_only]
      close_only_raises
    by blast
next
  have "is_bullish_try (\<lambda>rq. Inl ProviderError) ''AAA'' [] = (Inl ProviderError, [(''AAA'', ''3y'', ''1d'')])"
    by (simp add: is_bullish_try_daily_raises)
  then show "is_bullish_run (\<lambda>rq. Inl ProviderError) ''AAA'' [] = (False, [(''AAA'', ''3y'', ''1d'')])"
    using pipeline_never_raises [of "\<lambda>rq. Inl ProviderError" "''AAA''" "[]" ProviderError]
    by simp
next
  have "wf_frame close_only" "100 \<le> nrows close_only" "getcol close_only ''High'' = Inl KeyError"
    by (simp_all add: close_only_def wf_frame_def getcol_def)
  then show "is_above_cloud close_only = Inl KeyError"
    using pipeline_never_raises [where df = close_only and e = KeyError] by blast
next
  have "\<not> (\<exists>h l. getcol spans_only ''High'' = Inr h \<and> getcol spans_only ''Low'' = Inr l \<and>
      s_half (s_add (midline 9 h l) (midline 26 h l)) ! (nrows spans_only - 27) \<noteq> None \<and>
      midline 52 h l ! (nrows spans_only - 27) \<noteq> None)"
    using spans_only_cols by auto
  then show "is_above_cloud spans_only \<noteq> Inl KeyError"
    using pipeline_never_raises [where df = spans_only and e = KeyError] spans_only_cols(1,3,4)
    by auto
qed

theorem cloud_evaluator_raises_counterexample:
  "wf_frame close_only \<and> is_above_cloud close_only = Inl KeyError"
  by (simp add: close_only_raises) (simp add: close_only_def wf_frame_def)

text \<open>
  C4. When the daily check fails, that is when the daily fetch raises, or returns a frame
  that is empty or has fewer than 100 rows, or one on which the conjunction of the daily
  cloud evaluation and the momentum cross is not true, then the pipeline issues the
  daily fetch once and nothing else: neither the hourly nor the minute fetch.
\<close>

theorem daily_failure_fetches_once:
  assumes "case yf (t, ''3y'', ''1d'') of
             Inl e \<Rightarrow> True
           | Inr d \<Rightarrow> df_empty d \<or> nrows d < 100 \<or>
               \<not> (is_above_cloud d = Inr True \<and> ebind (add_macd d) macd_cross = Inr True)"
  shows "fetches yf t = [(t, ''3y'', ''1d'')] \<and>
         count_list (fetches yf t) (t, ''3y'', ''1d'') = 1 \<and>
         count_list (fetches yf t) (t, ''730d'', ''60m'') = 0 \<and>
         count_list (fetches yf t) (t, ''7d'', ''1m'') = 0 \<and>
         \<not> is_bullish yf t"
proof -
  have no: "\<not> (\<exists>d. yf (t, ''3y'', ''1d'') = Inr d \<and> \<not> df_empty d \<and> 100 \<le> nrows d \<and>
              daily_gate d = Inr Passed)"
    using assms unfolding daily_gate_passed by (auto split: sum.splits)
  then have "fetches yf t = [(t, ''3y'', ''1d'')]"
    by (rule fetches_daily_only)
  moreover have "\<not> is_bullish yf t"
    using no unfolding is_bullish_characterised by blast
  ultimately show ?thesis
    by simp
qed

theorem daily_failure_fetches_once_witness:
  "fetches (\<lambda>rq. Inl ProviderError) ''AAA'' = [(''AAA'', ''3y'', ''1d'')] \<and>
   fetches (\<lambda>rq. Inr (flat_frame [])) ''AAA'' = [(''AAA'', ''3y'', ''1d'')] \<and>
   fetches (\<lambda>rq. Inr (flat_frame (replicate 100 (Some 5)))) ''AAA'' = [(''AAA'', ''3y'', ''1d'')]"
proof (intro conjI)
  show "fetches (\<lambda>rq. Inl ProviderError) ''AAA'' = [(''AAA'', ''3y'', ''1d'')]"
    using daily_failure_fetches_once [of "\<lambda>rq. Inl ProviderError" "''AAA''"] by simp
next
  show "fetches (\<lambda>rq. Inr (flat_frame [])) ''AAA'' = [(''AAA'', ''3y'', ''1d'')]"
    using daily_failure_fetches_once [of "\<lambda>rq. Inr (flat_frame [])" "''AAA''"] by simp
next
  let ?df = "flat_frame (replicate 100 (Some 5))"
  obtain df' where "add_macd ?df = Inr df'"
    "getcol df' ''MACD'' = Inr (replicate 100 (Some 0))"
    "getcol df' ''MACD_Signal'' = Inr (replicate 100 (Some 0))"
    using add_macd_cols [of ?df "replicate 100 (Some 5)"]
    by (auto simp: ewm_mean_const s_sub_const)
  then have "ebind (add_macd ?df) macd_cross = Inr False"
    using macd_cross_cols [of df' "replicate 100 (Some 0)" "replicate 100 (Some 0)"]
    by (simp add: f_gt_def)
  then show "fetches (\<lambda>rq. Inr ?df) ''AAA'' = [(''AAA'', ''3y'', ''1d'')]"
    using daily_failure_fetches_once [of "\<lambda>rq. Inr ?df" "''AAA''"] by simp
qed

section \<open>The scan\<close>

lemma is_bullish_same_ticker:
  assumes "\<forall>rq. fst rq = t \<longrightarrow> yf' rq = yf rq"
  shows "is_bullish yf' t = is_bullish yf t"
  unfolding is_bullish_characterised using assms by simp

lemma completed_futures:
  assumes "mset completed = mset [0..<length fs]"
  shows "mset (map (\<lambda>i. fs ! i) completed) = mset fs"
proof -
  have "mset (map (\<lambda>i. fs ! i) completed) = image_mset (\<lambda>i. fs ! i) (mset completed)"
    by simp
  also have "\<dots> = mset (map (\<lambda>i. fs ! i) [0..<length fs])"
    using assms by simp
  also have "\<dots> = mset fs"
    by (simp add: map_nth)
  finally show ?thesis .
qed

lemma appended_mset:
  assumes "mset completed = mset [0..<length tickers]"
  shows "mset (map snd (filter fst (map (\<lambda>i. map (\<lambda>ticker. (is_bullish yf ticker, ticker)) tickers ! i)
           completed))) = mset (filter (is_bullish yf) tickers)"
proof -
  let ?fs = "map (\<lambda>ticker. (is_bullish yf ticker, ticker)) tickers"
  have "mset (map (\<lambda>i. ?fs ! i) completed) = mset ?fs"
    using assms by (intro completed_futures) simp
  then have "mset (map snd (filter fst (map (\<lambda>i. ?fs ! i) completed)))
      = mset (map snd (filter fst ?fs))"
    by simp
  also have "map snd (filter fst ?fs) = filter (is_bullish yf) tickers"
    by (induction tickers) simp_all
  finally show ?thesis .
qed

lemma screen_sorted:
  assumes "mset completed = mset [0..<length tickers]"
  shows "screen yf tickers completed =
           \<lparr> bullish_stocks = sort (filter (is_bullish yf) tickers),
             bullish_stocks_str = join '', '' (sort (filter (is_bullish yf) tickers)),
             found = length (filter (is_bullish yf) tickers),
             total_scanned = length tickers \<rparr>"
proof -
  let ?app = "map snd (filter fst (map (\<lambda>i. map (\<lambda>ticker. (is_bullish yf ticker, ticker)) tickers ! i)
           completed))"
  have app: "mset ?app = mset (filter (is_bullish yf) tickers)"
    using assms by (rule appended_mset)
  have srt: "sort ?app = sort (filter (is_bullish yf) tickers)"
  proof (rule properties_for_sort)
    show "mset (sort (filter (is_bullish yf) tickers)) = mset ?app"
      unfolding mset_sort by (rule app [symmetric])
    show "sorted (sort (filter (is_bullish yf) tickers))"
      by (rule sorted_sort)
  qed
  show ?thesis
    unfolding screen_def Let_def srt by simp
qed

lemma only_aaa_verdicts: "is_bullish only_aaa ''AAA''" "\<not> is_bullish only_aaa ''BBB''"
proof -
  have aaa: "only_aaa (''AAA'', p, i) = Inr (flat_frame rising)" for p i
    by (simp add: only_aaa_def)
  have ne: "\<not> df_empty (flat_frame rising)" "100 \<le> nrows (flat_frame rising)"
    by (simp_all add: rising_def)
  then have "lower_gate (flat_frame rising) (flat_frame rising) = Inr True"
    using rising_above by (simp add: lower_gate_True)
  then show "is_bullish only_aaa ''AAA''"
    unfolding is_bullish_characterised using aaa ne rising_gate by blast
  have "only_aaa (''BBB'', p, i) = Inr (flat_frame [])" for p i
    by (simp add: only_aaa_def)
  then show "\<not> is_bullish only_aaa ''BBB''"
    unfolding is_bullish_characterised by simp
qed

text \<open>
  C5. Whatever the order in which the futures complete, and whatever the order of the
  ticker universe, the scan returns the same result: the tickers on which the pipeline
  qualifies, sorted, with \<^verbatim>\<open>count\<close> their number and \<^verbatim>\<open>total_scanned\<close> the length of the
  universe. The verdict on a ticker depends on the provider's answers for that ticker
  only, so a failing fetch for one ticker changes no other verdict.
\<close>

theorem screen_order_invariant:
  assumes "mset completed = mset [0..<length tickers]"
    and "mset tickers' = mset tickers"
    and "mset completed' = mset [0..<length tickers']"
  shows "screen yf tickers' completed' = screen yf tickers completed \<and>
         bullish_stocks (screen yf tickers completed) = sort (filter (is_bullish yf) tickers) \<and>
         sorted (bullish_stocks (screen yf tickers completed)) \<and>
         mset (bullish_stocks (screen yf tickers completed))
           = filter_mset (is_bullish yf) (mset tickers) \<and>
         found (screen yf tickers completed) = length (filter (is_bullish yf) tickers) \<and>
         total_scanned (screen yf tickers completed) = length tickers \<and>
         ((\<forall>rq. fst rq = t \<longrightarrow> yf' rq = yf rq) \<longrightarrow> is_bullish yf' t = is_bullish yf t)"
proof -
  have same: "mset (filter (is_bullish yf) tickers') = mset (filter (is_bullish yf) tickers)"
    using assms(2) by simp
  have "sort (filter (is_bullish yf) tickers') = sort (filter (is_bullish yf) tickers)"
  proof (rule properties_for_sort)
    show "mset (sort (filter (is_bullish yf) tickers)) = mset (filter (is_bullish yf) tickers')"
      unfolding mset_sort by (rule same [symmetric])
    show "sorted (sort (filter (is_bullish yf) tickers))"
      by (rule sorted_sort)
  qed
  moreover have "length (filter (is_bullish yf) tickers') = length (filter (is_bullish yf) tickers)"
    by (rule mset_eq_length [OF same])
  moreover have "length tickers' = length tickers"
    by (rule mset_eq_length [OF assms(2)])
  ultimately have "screen yf tickers' completed' = screen yf tickers completed"
    by (simp add: screen_sorted [OF assms(1)] screen_sorted [OF assms(3)])
  moreover have "is_bullish yf' t = is_bullish yf t" if "\<forall>rq. fst rq = t \<longrightarrow> yf' rq = yf rq"
    using that by (rule is_bullish_same_ticker)
  ultimately show ?thesis
    by (simp add: screen_sorted [OF assms(1)])
qed

theorem screen_order_invariant_witness:
  "screen only_aaa [''AAA'', ''BBB''] [0, 1] = screen only_aaa [''BBB'', ''AAA''] [1, 0] \<and>
   bullish_stocks (screen only_aaa [''BBB'', ''AAA''] [1, 0]) = [''AAA''] \<and>
   found (screen only_aaa [''BBB'', ''AAA''] [1, 0]) = 1 \<and>
   total_scanned (screen only_aaa [''BBB'', ''AAA''] [1, 0]) = 2 \<and>
   is_bullish (\<lambda>rq. if fst rq = ''BBB'' then Inl ProviderError else only_aaa rq) ''AAA''"
proof -
  let ?yf' = "\<lambda>rq. if fst rq = ''BBB'' then Inl ProviderError else only_aaa rq"
  have p: "mset [1, 0] = mset [0..<length [''BBB'', ''AAA'']]"
    "mset [''AAA'', ''BBB''] = mset [''BBB'', ''AAA'']"
    "mset [0, 1] = mset [0..<length [''AAA'', ''BBB'']]"
    by (simp_all add: add_mset_commute)
  note inst = screen_order_invariant [OF p, of only_aaa "''AAA''" ?yf']
  have "\<forall>rq. fst rq = ''AAA'' \<longrightarrow> ?yf' rq = only_aaa rq"
    by simp
  then have "is_bullish ?yf' ''AAA''"
    using inst only_aaa_verdicts(1) by blast
  moreover have "screen only_aaa [''AAA'', ''BBB''] [0, 1] = screen only_aaa [''BBB'', ''AAA''] [1, 0]"
    using inst by blast
  moreover have "bullish_stocks (screen only_aaa [''BBB'', ''AAA''] [1, 0]) = [''AAA'']"
    using inst [THEN conjunct2, THEN conjunct1] by (simp add: only_aaa_verdicts)
  moreover have "found (screen only_aaa [''BBB'', ''AAA''] [1, 0]) = 1"
    using inst [THEN conjunct2, THEN conjunct2, THEN conjunct2, THEN conjunct2, THEN conjunct1]
    by (simp add: only_aaa_verdicts)
  moreover have "total_scanned (screen only_aaa [''BBB'', ''AAA''] [1, 0]) = 2"
    using inst [THEN conjunct2, THEN conjunct2, THEN conjunct2, THEN conjunct2, THEN conjunct2,
      THEN conjunct1]
    by simp
  ultimately show ?thesis
    by blast
qed

end
